theory Spec2Isabelle
  imports Complex_Main "HOL-Library.Word" "HOL-Library.Log_Nat"
begin

section \<open>Data model of getSolarPanelData.go\<close>

text \<open>
  Go strings are byte sequences; \<^typ>\<open>string\<close> is a list of bytes as well.  The
  integer fields are \<open>int64\<close>: 64-bit words read in two's complement by \<^const>\<open>sint\<close>,
  so that \<open>+=\<close> wraps the way Go's does.
\<close>

type_synonym int64 = "64 word"

text \<open>
  \<open>float64\<close>: not-a-number, the two infinities, the negative zero, and the finite values,
  each carried as the rational it denotes (\<open>Finite 0\<close> is the positive zero).  The
  operations round to 53 bits; they follow with line 228.
\<close>

datatype float64 = NaN | PosInf | NegInf | NegZero | Finite rat

record LiveData =
  CurrentPower :: int64
  Voltage :: int64
  Temperature :: int64
  Date :: string

record Panel =
  InverterID :: string
  HistoricalData :: "LiveData list"

record SolarData =
  Uvi :: float64
  UvMax :: float64
  UvMaxTime :: string
  SunAltitude :: float64
  SunAzimuth :: float64

record GlobalData =
  GDate :: string
  Power :: int64
  Performance :: float64
  Solar :: SolarData

text \<open>
  \<open>GDate\<close> and \<open>Solar\<close> are the fields \<open>Date\<close> and \<open>SolarData\<close> of the Go struct
  \<open>GlobalData\<close>, renamed because \<open>Date\<close> is already a field of \<open>LiveData\<close> and
  \<open>SolarData\<close> a record.
\<close>

text \<open>\<open>LiveData{}\<close>, also what indexing a Go map at a missing key returns.\<close>

definition zeroLiveData :: LiveData where
  "zeroLiveData = \<lparr>CurrentPower = 0, Voltage = 0, Temperature = 0, Date = []\<rparr>"

definition maxPower :: int64 where
  "maxPower = 250"

section \<open>The library functions the row callback calls\<close>

subsection \<open>The regular expression\<close>

text \<open>
  \<^verbatim>\<open>re := regexp.MustCompile(`[-]?\d[\d,]*[\.]?[\d{2}]*`)\<close>

  In Go's syntax \<open>\d\<close> is the ASCII class \<open>[0-9]\<close>, and \<open>[\d{2}]\<close> is a character
  class: a digit or one of the characters \<open>{\<close>, \<open>2\<close>, \<open>}\<close>.  Every class is ASCII, so
  matching bytes is the same as matching the runes of the UTF-8 text.
\<close>

definition isDigit :: "char \<Rightarrow> bool" where
  "isDigit c \<longleftrightarrow> (48::nat) \<le> of_char c \<and> of_char c \<le> (57::nat)"

definition digitOrComma :: "char \<Rightarrow> bool" where
  "digitOrComma c \<longleftrightarrow> isDigit c \<or> c = CHR '',''"

definition digitOrBrace :: "char \<Rightarrow> bool" where
  "digitOrBrace c \<longleftrightarrow> isDigit c \<or> c = CHR ''{'' \<or> c = CHR ''2'' \<or> c = CHR ''}''"

text \<open>
  The match of the expression anchored at the head of the text, with the text that follows
  it.  Go's matcher is leftmost-first; all four quantifiers are greedy and everything after
  the first digit may match the empty string, so the preferred match takes at every
  quantifier as much as it can.  A minus sign that no digit follows starts no match.
\<close>

definition optChar :: "char \<Rightarrow> string \<Rightarrow> string \<times> string" where
  "optChar c s = (case s of [] \<Rightarrow> ([], []) | x # xs \<Rightarrow> if x = c then ([x], xs) else ([], s))"

definition matchHere :: "string \<Rightarrow> (string \<times> string) option" where
  "matchHere s =
     (let (sign, s1) = optChar (CHR ''-'') s in
      case s1 of
        [] \<Rightarrow> None
      | d # s2 \<Rightarrow>
          if isDigit d then
            (let grp = takeWhile digitOrComma s2;
                 s3 = dropWhile digitOrComma s2;
                 (dot, s4) = optChar (CHR ''.'') s3;
                 frac = takeWhile digitOrBrace s4;
                 s5 = dropWhile digitOrBrace s4
             in Some (sign @ d # grp @ dot @ frac, s5))
          else None)"

lemma optChar_length: "optChar c s = (m, r) \<Longrightarrow> length r \<le> length s"
  by (auto simp: optChar_def split: list.splits if_splits)

lemma matchHere_shorter:
  assumes "matchHere s = Some (m, r)"
  shows "length r < length s"
proof -
  obtain sign s1 where o1: "optChar (CHR ''-'') s = (sign, s1)"
    by (cases "optChar (CHR ''-'') s")
  from assms o1 obtain d s2 where s1: "s1 = d # s2"
    by (cases s1) (auto simp: matchHere_def)
  obtain dot s4 where o2: "optChar (CHR ''.'') (dropWhile digitOrComma s2) = (dot, s4)"
    by (cases "optChar (CHR ''.'') (dropWhile digitOrComma s2)")
  from assms o1 s1 o2 have r: "r = dropWhile digitOrBrace s4"
    by (auto simp: matchHere_def Let_def split: if_splits)
  have "length r \<le> length s4"
    unfolding r by (rule length_dropWhile_le)
  also have "\<dots> \<le> length (dropWhile digitOrComma s2)"
    using o2 by (rule optChar_length)
  also have "\<dots> \<le> length s2"
    by (rule length_dropWhile_le)
  also have "\<dots> < length s1"
    by (simp add: s1)
  also have "\<dots> \<le> length s"
    using o1 by (rule optChar_length)
  finally show ?thesis .
qed

text \<open>
  \<open>re.FindAllString(s, -1)\<close>: all successive non-overlapping matches, each the leftmost one
  in what the previous match left over.  The expression matches no empty string.
\<close>

function FindAllString :: "string \<Rightarrow> string list" where
  "FindAllString s =
     (if s = [] then []
      else case matchHere s of
             Some (m, r) \<Rightarrow> m # FindAllString r
           | None \<Rightarrow> FindAllString (tl s))"
  by pat_completeness auto
termination
  by (relation "measure length") (auto dest: matchHere_shorter)

declare FindAllString.simps [simp del]

subsection \<open>strconv.ParseInt(s, 10, 64)\<close>

definition digitVal :: "char \<Rightarrow> nat" where
  "digitVal c = of_char c - 48"

definition decimal :: "string \<Rightarrow> nat" where
  "decimal ds = foldl (\<lambda>n c. 10 * n + digitVal c) 0 ds"

text \<open>
  \<open>None\<close> stands for a non-nil error: a syntax error (empty text, no digit after the
  sign, a byte that is no decimal digit) or a range error (outside
  \<open>-2^63 .. 2^63 - 1\<close>).  In base 10 an underscore is a syntax error too.
\<close>

definition ParseInt :: "string \<Rightarrow> int64 option" where
  "ParseInt s =
     (case s of
        [] \<Rightarrow> None
      | c # cs \<Rightarrow>
          (let neg = (c = CHR ''-'');
               body = (if c = CHR ''+'' \<or> c = CHR ''-'' then cs else s)
           in if body = [] \<or> \<not> list_all isDigit body then None
              else (let un = decimal body
                    in if \<not> neg \<and> un \<ge> 2 ^ 63 then None
                       else if neg \<and> un > 2 ^ 63 then None
                       else Some (if neg then - word_of_nat un else word_of_nat un))))"

text \<open>
  The expression the callback evaluates for each numeric cell,
  \<^verbatim>\<open>strconv.ParseInt(strings.Join(re.FindAllString(text, -1), ""), 10, 64)\<close>,
  together with its guard \<open>err == nil\<close>: on an error the field keeps the zero it has in
  \<open>LiveData{}\<close>.  \<open>strings.Join(xs, "")\<close> is \<^const>\<open>concat\<close>.
\<close>

definition numericField :: "string \<Rightarrow> int64" where
  "numericField text =
     (case ParseInt (concat (FindAllString text)) of Some v \<Rightarrow> v | None \<Rightarrow> 0)"

subsection \<open>strings.EqualFold and colly's ChildText\<close>

text \<open>
  \<open>strings.EqualFold\<close> compares under Unicode simple case folding.  Among the ASCII
  letters only \<open>k\<close> and \<open>s\<close> fold with a rune outside ASCII, and the callback's literal
  \<open>"Inverter ID"\<close> holds neither, so against it the comparison is equality of the bytes
  up to the case of the ASCII letters.
\<close>

definition asciiLower :: "char \<Rightarrow> char" where
  "asciiLower c =
     (case map_of (zip ''ABCDEFGHIJKLMNOPQRSTUVWXYZ'' ''abcdefghijklmnopqrstuvwxyz'') c of
        Some l \<Rightarrow> l
      | None \<Rightarrow> c)"

definition EqualFold :: "string \<Rightarrow> string \<Rightarrow> bool" where
  "EqualFold s t \<longleftrightarrow> map asciiLower s = map asciiLower t"

text \<open>
  A table row as the callback sees it: entry \<open>k - 1\<close> of the list is the text that
  \<open>e.ChildText("td:nth-child(k)")\<close> returns, already trimmed by colly; a selector that
  matches no cell returns the empty string.
\<close>

type_synonym HTMLElement = "string list"

definition ChildText :: "HTMLElement \<Rightarrow> nat \<Rightarrow> string" where
  "ChildText e k = (if 1 \<le> k \<and> k \<le> length e then e ! (k - 1) else [])"

section \<open>parseRealTime\<close>

text \<open>The \<open>LiveData\<close> the callback fills in for a row (lines 79 and 86 to 95).\<close>

definition rowLiveData :: "HTMLElement \<Rightarrow> LiveData" where
  "rowLiveData e =
     \<lparr>CurrentPower = numericField (ChildText e 2),
      Voltage = numericField (ChildText e 4),
      Temperature = numericField (ChildText e 5),
      Date = ChildText e 6\<rparr>"

text \<open>The callback registered with \<open>c.OnHTML("body > table > tbody > tr", ...)\<close>.\<close>

definition onRow :: "(string \<rightharpoonup> LiveData) \<Rightarrow> HTMLElement \<Rightarrow> (string \<rightharpoonup> LiveData)" where
  "onRow dataMap e =
     (let inverterID = ChildText e 1 in
      if EqualFold inverterID ''Inverter ID'' then dataMap
      else (let liveData = rowLiveData e in
            if CurrentPower liveData = 0 then dataMap
            else dataMap(inverterID \<mapsto> liveData)))"

text \<open>
  What \<open>c.Visit\<close> does: either it returns an error and the callback never runs, or the
  callback runs on the rows of the page in document order.  \<open>parseRealTime\<close> drops
  the value \<open>Visit\<close> returns.
\<close>

datatype response = FetchFailed | Page "HTMLElement list"

definition parseRealTime :: "response \<Rightarrow> (string \<rightharpoonup> LiveData)" where
  "parseRealTime r =
     (case r of
        FetchFailed \<Rightarrow> Map.empty
      | Page rows \<Rightarrow> foldl onRow Map.empty rows)"

section \<open>Persistence\<close>

text \<open>
  How a run ends early: \<open>log.Fatal\<close> with its message, or a Go panic.
\<close>

datatype abort = Fatal string | Panic

text \<open>
  A persistence file as \<open>os.Open\<close> and \<open>json.Unmarshal\<close> see it.  The bytes are
  abstracted to what the decoder does with them: it decodes an array (\<open>null\<close> decodes to
  the empty one); or the text is no JSON, and the decoder returns a syntax error before it
  writes anything; or the JSON has another shape than the target, and the decoder returns
  a type error having stored what did fit.
\<close>

datatype 'a content = WellFormed "'a list" | Malformed | WrongShape "'a list"

datatype 'a jsonFile = Missing | File "'a content"

text \<open>\<open>json.Unmarshal(bytes, &target)\<close>: whether the error is non-nil, and the target after.\<close>

definition Unmarshal :: "'a content \<Rightarrow> 'a list \<Rightarrow> bool \<times> 'a list" where
  "Unmarshal c target =
     (case c of
        WellFormed v \<Rightarrow> (False, v)
      | Malformed \<Rightarrow> (True, target)
      | WrongShape v \<Rightarrow> (True, v))"

definition loadPanelsFromJSON :: "Panel jsonFile \<Rightarrow> abort + Panel list" where
  "loadPanelsFromJSON f =
     (case f of
        Missing \<Rightarrow> Inl (Fatal ''opening panels file'')
      | File c \<Rightarrow> (let (err, panels) = Unmarshal c [] in Inr panels))"

definition loadGlobalFromJSON :: "GlobalData jsonFile \<Rightarrow> abort + GlobalData list" where
  "loadGlobalFromJSON f =
     (case f of
        Missing \<Rightarrow> Inl (Fatal ''opening global file'')
      | File c \<Rightarrow> (let (err, globals) = Unmarshal c [] in Inr globals))"

section \<open>The UV index\<close>

datatype json =
  JNull | JBool bool | JNumber float64 | JString string | JArray "json list"
  | JObject "(string \<times> json) list"

text \<open>
  The request of \<open>getData\<close>: it fails (then \<open>resp\<close> is nil and \<open>resp.Body\<close> panics), or
  the body cannot be read (\<open>log.Fatal\<close>), or the body does not decode into a
  \<open>map[string]interface{}\<close> (\<open>panic(parseErr)\<close>), or it decodes to an object, kept as its
  list of members.
\<close>

datatype uvResponse = RequestFailed | BodyUnreadable string | NotAnObject | Object "(string \<times> json) list"

definition getData :: "uvResponse \<Rightarrow> abort + (string \<times> json) list" where
  "getData r =
     (case r of
        RequestFailed \<Rightarrow> Inl Panic
      | BodyUnreadable msg \<Rightarrow> Inl (Fatal msg)
      | NotAnObject \<Rightarrow> Inl Panic
      | Object data \<Rightarrow> Inr data)"

text \<open>The unchecked type assertions; \<open>None\<close> is the panic of a failed one.\<close>

definition asObject :: "json option \<Rightarrow> (string \<times> json) list option" where
  "asObject v = (case v of Some (JObject m) \<Rightarrow> Some m | _ \<Rightarrow> None)"

definition asFloat :: "json option \<Rightarrow> float64 option" where
  "asFloat v = (case v of Some (JNumber x) \<Rightarrow> Some x | _ \<Rightarrow> None)"

definition asString :: "json option \<Rightarrow> string option" where
  "asString v = (case v of Some (JString x) \<Rightarrow> Some x | _ \<Rightarrow> None)"

definition makeSolarData :: "(string \<times> json) list \<Rightarrow> SolarData option" where
  "makeSolarData data =
     Option.bind (asObject (map_of data ''result'')) (\<lambda>result.
     Option.bind (asFloat (map_of result ''uv'')) (\<lambda>uv.
     Option.bind (asFloat (map_of result ''uv_max'')) (\<lambda>uvMax.
     Option.bind (asString (map_of result ''uv_max_time'')) (\<lambda>uvMaxTime.
     Option.bind (asObject (map_of result ''sun_info'')) (\<lambda>sunInfo.
     Option.bind (asObject (map_of sunInfo ''sun_position'')) (\<lambda>sunPosition.
     Option.bind (asFloat (map_of sunPosition ''altitude'')) (\<lambda>altitude.
     Option.bind (asFloat (map_of sunPosition ''azimuth'')) (\<lambda>azimuth.
       Some \<lparr>Uvi = uv, UvMax = uvMax, UvMaxTime = uvMaxTime,
             SunAltitude = altitude, SunAzimuth = azimuth\<rparr>))))))))"

section \<open>main\<close>

subsection \<open>The arithmetic of line 228\<close>

text \<open>
  IEEE 754 binary64 arithmetic, which is what Go's \<open>float64\<close> is.  A conversion, a
  division and a multiplication each return the exact result rounded to the nearest
  \<open>float64\<close>, ties to the even significand.  \<open>binade a\<close> is the exponent \<open>k\<close> with
  \<open>2^k \<le> a < 2^(k+1)\<close>; below \<open>2^-1022\<close> the spacing stays that of the subnormals, and a
  rounded magnitude of \<open>2^1024\<close> or more is an infinity.
\<close>

definition binade :: "rat \<Rightarrow> int" where
  "binade a = (if 1 \<le> a then bitlen \<lfloor>a\<rfloor> - 1 else - bitlen (\<lceil>1 / a\<rceil> - 1))"

definition roundHalfEven :: "rat \<Rightarrow> int" where
  "roundHalfEven x =
     (let f = \<lfloor>x\<rfloor>; d = x - of_int f
      in if d < 1 / 2 then f else if 1 / 2 < d then f + 1 else if even f then f else f + 1)"

definition round64 :: "rat \<Rightarrow> float64" where
  "round64 q =
     (if q = 0 then Finite 0
      else (let a = \<bar>q\<bar>;
                e = max (binade a) (- 1022);
                ulp = 2 powi (e - 52);
                m = of_int (roundHalfEven (a / ulp)) * ulp
            in if 2 ^ 1024 \<le> m then (if 0 < q then PosInf else NegInf)
               else if m = 0 then (if 0 < q then Finite 0 else NegZero)
               else Finite (if 0 < q then m else - m)))"

text \<open>\<open>float64(x)\<close> of an \<open>int64\<close>.\<close>

definition float64_of_int64 :: "int64 \<Rightarrow> float64" where
  "float64_of_int64 x = round64 (of_int (sint x))"

definition isZero :: "float64 \<Rightarrow> bool" where
  "isZero x \<longleftrightarrow> x = Finite 0 \<or> x = NegZero"

definition isInf :: "float64 \<Rightarrow> bool" where
  "isInf x \<longleftrightarrow> x = PosInf \<or> x = NegInf"

definition negative :: "float64 \<Rightarrow> bool" where
  "negative x =
     (case x of Finite q \<Rightarrow> q < 0 | NegZero \<Rightarrow> True | NegInf \<Rightarrow> True | _ \<Rightarrow> False)"

definition valueOf :: "float64 \<Rightarrow> rat" where
  "valueOf x = (case x of Finite q \<Rightarrow> q | _ \<Rightarrow> 0)"

definition signedInf :: "bool \<Rightarrow> float64" where
  "signedInf neg = (if neg then NegInf else PosInf)"

definition signedZero :: "bool \<Rightarrow> float64" where
  "signedZero neg = (if neg then NegZero else Finite 0)"

text \<open>
  Division and multiplication of \<open>float64\<close>: NaN for \<open>0/0\<close>, \<open>\<infinity>/\<infinity>\<close> and \<open>0 * \<infinity>\<close>, a signed
  infinity or zero where an operand is one, and the rounded quotient or product otherwise.
\<close>

definition fdiv :: "float64 \<Rightarrow> float64 \<Rightarrow> float64" where
  "fdiv x y =
     (if x = NaN \<or> y = NaN \<or> (isInf x \<and> isInf y) \<or> (isZero x \<and> isZero y) then NaN
      else (let neg = (negative x \<noteq> negative y)
            in if isInf x \<or> isZero y then signedInf neg
               else if isZero x \<or> isInf y then signedZero neg
               else round64 (valueOf x / valueOf y)))"

definition fmul :: "float64 \<Rightarrow> float64 \<Rightarrow> float64" where
  "fmul x y =
     (if x = NaN \<or> y = NaN \<or> (isInf x \<and> isZero y) \<or> (isZero x \<and> isInf y) then NaN
      else (let neg = (negative x \<noteq> negative y)
            in if isInf x \<or> isInf y then signedInf neg
               else if isZero x \<or> isZero y then signedZero neg
               else round64 (valueOf x * valueOf y)))"

subsection \<open>The loop of lines 220 to 223\<close>

text \<open>\<open>liveDataMap[id]\<close>: the zero value at a key the map does not hold.\<close>

definition index :: "(string \<rightharpoonup> LiveData) \<Rightarrow> string \<Rightarrow> LiveData" where
  "index liveDataMap k = (case liveDataMap k of Some v \<Rightarrow> v | None \<Rightarrow> zeroLiveData)"

text \<open>
  The loop takes the panels in order; for each it replaces the history by the history
  with the indexed reading appended, and adds the reading's power to the running total,
  an \<open>int64\<close> that wraps.  The histories come from the decoder, each with a backing array
  of its own, so \<open>append\<close> never writes into another panel's history.
\<close>

fun mergeLoop :: "(string \<rightharpoonup> LiveData) \<Rightarrow> Panel list \<Rightarrow> int64 \<Rightarrow> Panel list \<times> int64" where
  "mergeLoop liveDataMap [] totalOutput = ([], totalOutput)"
| "mergeLoop liveDataMap (panel # rest) totalOutput =
     (let reading = index liveDataMap (InverterID panel);
          (rest', totalOutput') =
             mergeLoop liveDataMap rest (totalOutput + CurrentPower reading)
      in (panel\<lparr>HistoricalData := HistoricalData panel @ [reading]\<rparr> # rest', totalOutput'))"

subsection \<open>A run\<close>

text \<open>
  Everything a run reads: the answer of the inverter's status page, the answer of the
  UV service, the two files, and the clock (already formatted).
\<close>

record env =
  statusPage :: response
  uvService :: uvResponse
  panelFile :: "Panel jsonFile"
  globalFile :: "GlobalData jsonFile"
  now :: string

text \<open>
  \<open>main\<close> returns how the run aborted, or the two collections it hands to \<open>savePanels\<close>
  and \<open>saveGlobal\<close>.  The verbose dump and the status line go to standard output and are
  left out.
\<close>

definition main :: "env \<Rightarrow> abort + (Panel list \<times> GlobalData list)" where
  "main e =
     (let liveDataMap = parseRealTime (statusPage e) in
      case getData (uvService e) of
        Inl a \<Rightarrow> Inl a
      | Inr data \<Rightarrow>
     (case makeSolarData data of
        None \<Rightarrow> Inl Panic
      | Some solarData \<Rightarrow>
     (case loadPanelsFromJSON (panelFile e) of
        Inl a \<Rightarrow> Inl a
      | Inr panels \<Rightarrow>
          (let (panels', totalOutput) = mergeLoop liveDataMap panels 0;
               theoreticalTotalOutput = word_of_nat (length panels') * maxPower;
               globalData =
                 \<lparr>GDate = now e,
                  Power = totalOutput,
                  Performance =
                    fmul (fdiv (float64_of_int64 totalOutput)
                               (float64_of_int64 theoreticalTotalOutput))
                         (Finite 100),
                  Solar = solarData\<rparr>
           in case loadGlobalFromJSON (globalFile e) of
                Inl a \<Rightarrow> Inl a
              | Inr globals \<Rightarrow> Inr (panels', globals @ [globalData])))))"

section \<open>Notions used in the statements\<close>

text \<open>A text with none of the characters that the expression matches besides digits.\<close>

definition plain :: "string \<Rightarrow> bool" where
  "plain s \<longleftrightarrow> (\<forall>c\<in>set s. c \<notin> set ''-,.{}'')"

text \<open>The rows that reach the assignment \<open>dataMap[InverterID] = liveData\<close>.\<close>

definition kept :: "HTMLElement \<Rightarrow> bool" where
  "kept e \<longleftrightarrow> \<not> EqualFold (ChildText e 1) ''Inverter ID'' \<and> numericField (ChildText e 2) \<noteq> 0"

text \<open>
  The rows with an extracted power above 0.  The callback extracts a power only from a row
  that is no header row: at a header row it returns at line 84.
\<close>

definition powered :: "HTMLElement \<Rightarrow> bool" where
  "powered e \<longleftrightarrow>
     \<not> EqualFold (ChildText e 1) ''Inverter ID'' \<and> 0 < sint (CurrentPower (rowLiveData e))"

text \<open>
  A run used to instantiate the theorems about \<open>main\<close>: a header row, a row for the inverter
  \<open>INV1\<close> and a row for an inverter \<open>INV9\<close> that has no panel; two panels, \<open>INV1\<close> with one
  earlier reading and \<open>INV2\<close> with none; no earlier summary.
\<close>

definition samplePayload :: "(string \<times> json) list" where
  "samplePayload =
     [(''result'', JObject
        [(''uv'', JNumber (Finite 3)),
         (''uv_max'', JNumber (Finite 5)),
         (''uv_max_time'', JString ''2024-01-01T12:00:00Z''),
         (''sun_info'', JObject
            [(''sun_position'', JObject
               [(''altitude'', JNumber (Finite 1)), (''azimuth'', JNumber (Finite 2))])])])]"

definition sampleSolar :: SolarData where
  "sampleSolar =
     \<lparr>Uvi = Finite 3, UvMax = Finite 5, UvMaxTime = ''2024-01-01T12:00:00Z'',
      SunAltitude = Finite 1, SunAzimuth = Finite 2\<rparr>"

definition sampleRun :: env where
  "sampleRun =
     \<lparr>statusPage = Page
        [[''Inverter ID'', ''Power'', '''', ''Voltage'', ''Temp'', ''Date''],
         [''INV1'', ''100 W'', '''', ''230 V'', ''35 C'', ''2024-01-01 10:00:00''],
         [''INV9'', ''150 W'', '''', ''231 V'', ''36 C'', ''2024-01-01 10:00:01'']],
      uvService = Object samplePayload,
      panelFile = File (WellFormed
        [\<lparr>InverterID = ''INV1'',
          HistoricalData =
            [\<lparr>CurrentPower = 90, Voltage = 229, Temperature = 30, Date = ''2024-01-01 09:00:00''\<rparr>]\<rparr>,
         \<lparr>InverterID = ''INV2'', HistoricalData = []\<rparr>]),
      globalFile = File (WellFormed []),
      now = ''2024-01-01 10:00:05''\<rparr>"

section \<open>Properties of the float64 operations\<close>

lemma binade_lower:
  assumes "0 < a"
  shows "2 powi (binade a) \<le> a"
proof (cases "1 \<le> a")
  case True
  then have n: "0 < \<lfloor>a\<rfloor>" by simp
  from bitlen_bounds [OF n] have "2 ^ nat (bitlen \<lfloor>a\<rfloor> - 1) \<le> \<lfloor>a\<rfloor>" by simp
  then have "(of_int (2 ^ nat (bitlen \<lfloor>a\<rfloor> - 1)) :: rat) \<le> of_int \<lfloor>a\<rfloor>"
    by (simp only: of_int_le_iff)
  also have "\<dots> \<le> a" by simp
  finally have "(2::rat) ^ nat (bitlen \<lfloor>a\<rfloor> - 1) \<le> a" by simp
  moreover have "1 \<le> bitlen \<lfloor>a\<rfloor>" using n by (simp add: bitlen_alt_def)
  ultimately show ?thesis using True by (simp add: binade_def power_int_def)
next
  case False
  let ?c = "\<lceil>1 / a\<rceil>"
  let ?j = "bitlen (?c - 1)"
  from False assms have x: "1 < 1 / a" by simp
  then have c: "0 < ?c - 1" by (simp add: less_ceiling_iff)
  from bitlen_bounds [OF c] have "?c - 1 < 2 ^ nat ?j" by simp
  then have "?c \<le> 2 ^ nat ?j" by simp
  then have "(of_int ?c :: rat) \<le> of_int (2 ^ nat ?j)" by (simp only: of_int_le_iff)
  with le_of_int_ceiling [of "1 / a"] have "1 / a \<le> of_int (2 ^ nat ?j)"
    by (rule order_trans)
  then have "1 / a \<le> 2 ^ nat ?j" by simp
  then have "1 / 2 ^ nat ?j \<le> a" using assms by (simp add: field_simps)
  moreover have "1 \<le> ?j" using c by (simp add: bitlen_alt_def)
  ultimately show ?thesis using False
    by (simp add: binade_def power_int_def field_simps)
qed


lemma binade_upper:
  assumes "0 < a"
  shows "a < 2 powi (binade a + 1)"
proof (cases "1 \<le> a")
  case True
  then have n: "0 < \<lfloor>a\<rfloor>" by simp
  from bitlen_bounds [OF n] have "\<lfloor>a\<rfloor> + 1 \<le> 2 ^ nat (bitlen \<lfloor>a\<rfloor>)" by simp
  then have "(of_int (\<lfloor>a\<rfloor> + 1) :: rat) \<le> of_int (2 ^ nat (bitlen \<lfloor>a\<rfloor>))"
    by (simp only: of_int_le_iff)
  moreover have "a < of_int (\<lfloor>a\<rfloor> + 1)" by linarith
  ultimately have "a < of_int (2 ^ nat (bitlen \<lfloor>a\<rfloor>))" by (rule less_le_trans [rotated])
  then have "a < 2 ^ nat (bitlen \<lfloor>a\<rfloor>)" by simp
  moreover have "1 \<le> bitlen \<lfloor>a\<rfloor>" using n by (simp add: bitlen_alt_def)
  ultimately show ?thesis using True by (simp add: binade_def power_int_def)
next
  case False
  let ?c = "\<lceil>1 / a\<rceil>"
  let ?j = "bitlen (?c - 1)"
  from False assms have x: "1 < 1 / a" by simp
  then have c: "0 < ?c - 1" by (simp add: less_ceiling_iff)
  have j: "1 \<le> ?j" using c by (simp add: bitlen_alt_def)
  from bitlen_bounds [OF c] have "2 ^ nat (?j - 1) \<le> ?c - 1" by simp
  then have "(of_int (2 ^ nat (?j - 1)) :: rat) \<le> of_int (?c - 1)"
    by (simp only: of_int_le_iff)
  moreover have "of_int (?c - 1) < 1 / a" by linarith
  ultimately have "of_int (2 ^ nat (?j - 1)) < 1 / a" by (rule le_less_trans)
  then have "2 ^ nat (?j - 1) < 1 / a" by simp
  then have "a < 1 / 2 ^ nat (?j - 1)" using assms by (simp add: field_simps)
  moreover have "2 powi (- ?j + 1) = (1 / 2 ^ nat (?j - 1) :: rat)"
    using j by (cases "?j = 1") (simp_all add: power_int_def field_simps)
  ultimately show ?thesis using False by (simp add: binade_def)
qed

lemma roundHalfEven_close: "\<bar>of_int (roundHalfEven x) - x\<bar> \<le> 1 / 2"
proof -
  have "of_int \<lfloor>x\<rfloor> \<le> x" "x < of_int \<lfloor>x\<rfloor> + 1" by linarith+
  then show ?thesis
    by (auto simp: roundHalfEven_def Let_def abs_le_iff)
qed


lemma abs_scale:
  fixes u :: rat
  assumes "0 < u"
  shows "\<bar>r * u - a\<bar> = \<bar>r - a / u\<bar> * u"
proof -
  have "\<bar>r - a / u\<bar> * u = \<bar>(r - a / u) * u\<bar>"
    using assms by (simp add: abs_mult)
  also have "(r - a / u) * u = r * u - a"
    using assms by (simp add: field_simps)
  finally show ?thesis by simp
qed

lemma close_bounds:
  fixes m a :: rat
  assumes "\<bar>m - a\<bar> \<le> a / 2 ^ 53" and "0 < a"
  shows "0 < m" and "m \<le> 2 * a"
proof -
  from assms(2) have "a / 2 ^ 53 < a" by (simp add: field_simps)
  with assms(1) show "0 < m" and "m \<le> 2 * a" by linarith+
qed

lemma round64_close:
  assumes lo: "1 / 2 ^ 1022 \<le> \<bar>q\<bar>" and hi: "\<bar>q\<bar> \<le> 2 ^ 1000"
  shows "\<exists>p. round64 q = Finite p \<and> \<bar>p - q\<bar> \<le> \<bar>q\<bar> / 2 ^ 53"
proof -
  let ?a = "\<bar>q\<bar>"
  let ?e = "binade ?a"
  let ?ulp = "(2::rat) powi (?e - 52)"
  let ?m = "of_int (roundHalfEven (?a / ?ulp)) * ?ulp"
  have a: "0 < ?a" using lo by (rule less_le_trans [rotated]) simp
  then have q: "q \<noteq> 0" by simp
  have "(2::rat) powi (- 1022) \<le> ?a" using lo by (simp add: power_int_def field_simps)
  also have "?a < 2 powi (?e + 1)" using a by (rule binade_upper)
  finally have lt: "(2::rat) powi (- 1022) < 2 powi (?e + 1)" .
  have "- 1022 < ?e + 1"
  proof (rule ccontr)
    assume "\<not> - 1022 < ?e + 1"
    then have "?e + 1 \<le> - 1022" by simp
    then have "(2::rat) powi (?e + 1) \<le> 2 powi (- 1022)"
      by (rule power_int_increasing) simp
    with lt show False by simp
  qed
  then have e: "max ?e (- 1022) = ?e" by simp
  have u: "0 < ?ulp" by simp
  have ue: "?ulp * 2 ^ 52 = 2 powi ?e"
    using power_int_add [of "2::rat" "?e - 52" 52] by simp
  have "\<bar>?m - ?a\<bar> = \<bar>of_int (roundHalfEven (?a / ?ulp)) - ?a / ?ulp\<bar> * ?ulp"
    using u by (rule abs_scale)
  also have "\<dots> \<le> 1 / 2 * ?ulp"
    using u roundHalfEven_close [of "?a / ?ulp"] by (intro mult_right_mono) simp_all
  also have "\<dots> = 2 powi ?e / 2 ^ 53"
    by (simp add: ue [symmetric])
  also have "\<dots> \<le> ?a / 2 ^ 53"
    using binade_lower [OF a] by (simp add: divide_right_mono)
  finally have close: "\<bar>?m - ?a\<bar> \<le> ?a / 2 ^ 53" .
  have m0: "0 < ?m" using close a by (rule close_bounds)
  have "?m \<le> 2 * ?a" using close a by (rule close_bounds)
  also have "\<dots> \<le> 2 * 2 ^ 1000" using hi by simp
  also have "\<dots> < (2::rat) ^ 1024" by simp
  finally have m1: "\<not> 2 ^ 1024 \<le> ?m" by simp
  have m00: "?m \<noteq> 0"
  proof
    assume "?m = 0"
    with m0 show False by (simp only: less_irrefl)
  qed
  have r: "round64 q = Finite (if 0 < q then ?m else - ?m)"
    unfolding round64_def Let_def e by (simp only: q m1 m00 if_False)
  have "\<bar>(if 0 < q then ?m else - ?m) - q\<bar> = \<bar>?m - ?a\<bar>"
    using q by (cases "0 < q") (simp_all add: abs_minus_commute)
  with close r show ?thesis by auto
qed


lemma powi_less_imp:
  assumes "(2::rat) powi i < 2 powi j"
  shows "i < j"
proof (rule ccontr)
  assume "\<not> i < j"
  then have "j \<le> i" by simp
  then have "(2::rat) powi j \<le> 2 powi i" by (rule power_int_increasing) simp
  with assms show False by simp
qed

lemma binade_eqI:
  assumes "2 powi k \<le> a" and "a < 2 powi (k + 1)"
  shows "binade a = k"
proof -
  have a: "0 < a" using assms(1) by (rule less_le_trans [rotated]) simp
  have "(2::rat) powi k < 2 powi (binade a + 1)"
    using assms(1) binade_upper [OF a] by (rule le_less_trans)
  then have 1: "k < binade a + 1" by (rule powi_less_imp)
  have "(2::rat) powi (binade a) < 2 powi (k + 1)"
    using binade_lower [OF a] assms(2) by (rule le_less_trans)
  then have 2: "binade a < k + 1" by (rule powi_less_imp)
  from 1 2 show ?thesis by simp
qed

lemma floor_rat_numeral: "\<lfloor>(numeral a :: rat) / numeral b\<rfloor> = numeral a div numeral b"
  using floor_divide_of_int_eq [of "numeral a" "numeral b", where ?'a = rat] by simp

lemma round64_evalI:
  assumes q: "q \<noteq> 0"
    and lo: "2 powi k \<le> \<bar>q\<bar>" and hi: "\<bar>q\<bar> < 2 powi (k + 1)"
    and k: "- 1022 \<le> k"
    and r: "roundHalfEven (\<bar>q\<bar> / 2 powi (k - 52)) = r"
    and r0: "r \<noteq> 0"
    and fin: "\<not> 2 ^ 1024 \<le> of_int r * (2::rat) powi (k - 52)"
    and p: "p = (if 0 < q then of_int r * 2 powi (k - 52) else - (of_int r * 2 powi (k - 52)))"
  shows "round64 q = Finite p"
proof -
  have b: "binade \<bar>q\<bar> = k" using lo hi by (rule binade_eqI)
  have e: "max k (- 1022) = k" using k by simp
  have m0: "of_int r * (2::rat) powi (k - 52) \<noteq> 0"
    using r0 by simp
  show ?thesis
    unfolding round64_def Let_def b e r p by (simp only: q fin m0 if_False)
qed

lemma fdiv_finite: "a \<noteq> 0 \<Longrightarrow> b \<noteq> 0 \<Longrightarrow> fdiv (Finite a) (Finite b) = round64 (a / b)"
  by (simp add: fdiv_def isZero_def isInf_def valueOf_def)

lemma fmul_finite: "a \<noteq> 0 \<Longrightarrow> b \<noteq> 0 \<Longrightarrow> fmul (Finite a) (Finite b) = round64 (a * b)"
  by (simp add: fmul_def isZero_def isInf_def valueOf_def)

lemmas evalHalfEven = roundHalfEven_def Let_def floor_rat_numeral

lemma round64_sample_quotient: "round64 (100 / 500) = Finite (3602879701896397 / 18014398509481984)"
  by (rule round64_evalI [where k = "- 3" and r = 7205759403792794]) (simp_all add: evalHalfEven)

lemma round64_sample_product: "round64 (3602879701896397 / 18014398509481984 * 100) = Finite 20"
  by (rule round64_evalI [where k = 4 and r = 5629499534213120]) (simp_all add: evalHalfEven)


lemma close_trans:
  fixes p q r a b :: rat
  assumes pq: "\<bar>p - q\<bar> \<le> a * \<bar>q\<bar>" and qr: "\<bar>q - r\<bar> \<le> b * \<bar>r\<bar>" and a: "0 \<le> a"
  shows "\<bar>p - r\<bar> \<le> (a + b + a * b) * \<bar>r\<bar>"
proof -
  have "\<bar>q\<bar> \<le> \<bar>r\<bar> + \<bar>q - r\<bar>" by linarith
  also have "\<dots> \<le> \<bar>r\<bar> + b * \<bar>r\<bar>" using qr by simp
  finally have "a * \<bar>q\<bar> \<le> a * (\<bar>r\<bar> + b * \<bar>r\<bar>)" using a by (rule mult_left_mono)
  with pq have 1: "\<bar>p - q\<bar> \<le> a * (\<bar>r\<bar> + b * \<bar>r\<bar>)" by linarith
  have "\<bar>p - r\<bar> \<le> \<bar>p - q\<bar> + \<bar>q - r\<bar>" by linarith
  also have "\<dots> \<le> a * (\<bar>r\<bar> + b * \<bar>r\<bar>) + b * \<bar>r\<bar>" using 1 qr by linarith
  also have "\<dots> = (a + b + a * b) * \<bar>r\<bar>" by (simp add: algebra_simps)
  finally show ?thesis .
qed

lemma close_div:
  fixes x x' y y' a b :: rat
  assumes x: "\<bar>x' - x\<bar> \<le> a * \<bar>x\<bar>" and y: "\<bar>y' - y\<bar> \<le> b * \<bar>y\<bar>"
    and b: "b < 1" and y0: "y \<noteq> 0"
  shows "\<bar>x' / y' - x / y\<bar> \<le> (a + b) / (1 - b) * \<bar>x / y\<bar>"
proof -
  have ypos: "0 < \<bar>y\<bar>" using y0 by simp
  have "\<bar>y\<bar> \<le> \<bar>y'\<bar> + \<bar>y' - y\<bar>" by linarith
  with y have ylow: "(1 - b) * \<bar>y\<bar> \<le> \<bar>y'\<bar>" by (simp add: algebra_simps)
  have "0 < (1 - b) * \<bar>y\<bar>" using b ypos by simp
  with ylow have y'pos: "0 < \<bar>y'\<bar>" by linarith
  then have y'0: "y' \<noteq> 0" by simp
  have "x' / y' - x / y = ((x' - x) * y - x * (y' - y)) / (y' * y)"
    using y0 y'0 by (simp add: field_simps)
  then have "\<bar>x' / y' - x / y\<bar> = \<bar>(x' - x) * y - x * (y' - y)\<bar> / (\<bar>y'\<bar> * \<bar>y\<bar>)"
    by (simp add: abs_mult)
  also have "\<bar>(x' - x) * y - x * (y' - y)\<bar> \<le> \<bar>x' - x\<bar> * \<bar>y\<bar> + \<bar>x\<bar> * \<bar>y' - y\<bar>"
    using abs_triangle_ineq4 [of "(x' - x) * y" "x * (y' - y)"] by (simp add: abs_mult)
  also have "\<dots> \<le> a * \<bar>x\<bar> * \<bar>y\<bar> + \<bar>x\<bar> * (b * \<bar>y\<bar>)"
    using x y by (intro add_mono mult_right_mono mult_left_mono) simp_all
  also have "\<dots> = (a + b) * (\<bar>x\<bar> * \<bar>y\<bar>)" by (simp add: algebra_simps)
  finally have num: "\<bar>x' / y' - x / y\<bar> \<le> (a + b) * (\<bar>x\<bar> * \<bar>y\<bar>) / (\<bar>y'\<bar> * \<bar>y\<bar>)"
    using y'pos ypos by (simp add: divide_right_mono)
  have ab: "0 \<le> (a + b) * (\<bar>x\<bar> * \<bar>y\<bar>)"
  proof -
    have "0 \<le> \<bar>x' - x\<bar> * \<bar>y\<bar> + \<bar>x\<bar> * \<bar>y' - y\<bar>" by simp
    also have "\<dots> \<le> a * \<bar>x\<bar> * \<bar>y\<bar> + \<bar>x\<bar> * (b * \<bar>y\<bar>)"
      using x y by (intro add_mono mult_right_mono mult_left_mono) simp_all
    also have "\<dots> = (a + b) * (\<bar>x\<bar> * \<bar>y\<bar>)" by (simp add: algebra_simps)
    finally show ?thesis .
  qed
  have "(a + b) * (\<bar>x\<bar> * \<bar>y\<bar>) / (\<bar>y'\<bar> * \<bar>y\<bar>)
      \<le> (a + b) * (\<bar>x\<bar> * \<bar>y\<bar>) / ((1 - b) * \<bar>y\<bar> * \<bar>y\<bar>)"
  proof (rule divide_left_mono [OF _ ab])
    show "(1 - b) * \<bar>y\<bar> * \<bar>y\<bar> \<le> \<bar>y'\<bar> * \<bar>y\<bar>"
      using ylow by (rule mult_right_mono) simp
    have "0 < \<bar>y'\<bar> * \<bar>y\<bar>" using y'pos ypos by (rule mult_pos_pos)
    moreover have "0 < (1 - b) * \<bar>y\<bar> * \<bar>y\<bar>"
      using b ypos by (intro mult_pos_pos) simp_all
    ultimately show "0 < \<bar>y'\<bar> * \<bar>y\<bar> * ((1 - b) * \<bar>y\<bar> * \<bar>y\<bar>)"
      by (rule mult_pos_pos)
  qed
  also have "\<dots> = (a + b) / (1 - b) * \<bar>x / y\<bar>"
    using ypos b by (simp add: field_simps)
  finally show ?thesis using num by linarith
qed


lemma round64_rel:
  assumes "1 / 2 ^ 1022 \<le> \<bar>q\<bar>" and "\<bar>q\<bar> \<le> 2 ^ 1000"
  obtains p where "round64 q = Finite p" and "\<bar>p - q\<bar> \<le> 1 / 2 ^ 53 * \<bar>q\<bar>"
    and "\<bar>q\<bar> / 2 \<le> \<bar>p\<bar>" and "\<bar>p\<bar> \<le> 2 * \<bar>q\<bar>"
proof -
  from round64_close [OF assms] obtain p
    where p: "round64 q = Finite p" and c: "\<bar>p - q\<bar> \<le> \<bar>q\<bar> / 2 ^ 53" by blast
  have "\<bar>q\<bar> / 2 ^ 53 \<le> \<bar>q\<bar> / 2" by (simp add: field_simps)
  with c have "\<bar>p - q\<bar> \<le> \<bar>q\<bar> / 2" by linarith
  then have "\<bar>q\<bar> / 2 \<le> \<bar>p\<bar>" and "\<bar>p\<bar> \<le> 2 * \<bar>q\<bar>" by linarith+
  moreover from c have "\<bar>p - q\<bar> \<le> 1 / 2 ^ 53 * \<bar>q\<bar>" by simp
  ultimately show ?thesis using p that by blast
qed


lemma half_lower:
  fixes c p v :: rat
  assumes "v / 2 \<le> p" and "c \<le> v"
  shows "c / 2 \<le> p"
  using assms by linarith

lemma twice_upper:
  fixes c p v :: rat
  assumes "p \<le> 2 * v" and "v \<le> c"
  shows "p \<le> 2 * c"
  using assms by linarith

lemma abs_times_100:
  fixes a b :: rat
  shows "\<bar>a * 100 - b * 100\<bar> = \<bar>a - b\<bar> * 100"
proof -
  have "a * 100 - b * 100 = (a - b) * 100" by (simp add: algebra_simps)
  then have "\<bar>a * 100 - b * 100\<bar> = \<bar>a - b\<bar> * \<bar>100\<bar>" by (simp only: abs_mult)
  then show ?thesis by simp
qed

lemma performance_close:
  fixes T D :: int
  assumes D0: "0 < D" and D1: "D < 2 ^ 63" and T0: "- (2 ^ 63) \<le> T" and T1: "T < 2 ^ 63"
  shows "\<exists>p. fmul (fdiv (round64 (of_int T)) (round64 (of_int D))) (Finite 100) = Finite p \<and>
             \<bar>p - of_int T / of_int D * 100\<bar> \<le> \<bar>of_int T / of_int D * 100\<bar> / 2 ^ 50"
proof -
  let ?x = "of_int T :: rat" and ?y = "of_int D :: rat"
  have yl: "1 \<le> ?y" using D0 by simp
  from D1 have "D \<le> 2 ^ 63" by simp
  then have "?y \<le> of_int (2 ^ 63)" by (simp only: of_int_le_iff)
  then have yu: "?y \<le> 2 ^ 63" by simp
  have ya: "\<bar>?y\<bar> = ?y" using yl by simp
  have "1 / 2 ^ 1022 \<le> \<bar>?y\<bar>" using yl unfolding ya by (rule order_trans [rotated]) simp
  moreover have "\<bar>?y\<bar> \<le> 2 ^ 1000" using yu unfolding ya by (rule order_trans) simp
  ultimately obtain y' where y': "round64 ?y = Finite y'"
      and yc: "\<bar>y' - ?y\<bar> \<le> 1 / 2 ^ 53 * \<bar>?y\<bar>"
      and yl': "\<bar>?y\<bar> / 2 \<le> \<bar>y'\<bar>" and yu': "\<bar>y'\<bar> \<le> 2 * \<bar>?y\<bar>"
    by (rule round64_rel)
  have "1 / 2 ^ 53 * ?y < ?y" using yl by simp
  with yc have ypos: "0 < y'" unfolding ya by linarith
  have y'l: "1 / 2 \<le> \<bar>y'\<bar>" using yl' yl unfolding ya by linarith
  have y'u: "\<bar>y'\<bar> \<le> 2 ^ 64" using yu' yu unfolding ya by simp
  show ?thesis
  proof (cases "T = 0")
    case True
    have z: "round64 (of_int T) = Finite 0" by (simp add: True round64_def)
    have "fmul (fdiv (Finite 0) (Finite y')) (Finite 100) = Finite 0"
      using ypos by (simp add: fdiv_def fmul_def isZero_def isInf_def negative_def signedZero_def)
    then have "fmul (fdiv (round64 (of_int T)) (round64 ?y)) (Finite 100) = Finite 0"
      by (simp only: z y')
    then show ?thesis by (simp add: True)
  next
    case False
    then have "1 \<le> \<bar>T\<bar>" by simp
    then have "(of_int 1 :: rat) \<le> of_int \<bar>T\<bar>" by (simp only: of_int_le_iff)
    then have xl: "1 \<le> \<bar>?x\<bar>" by simp
    have "\<bar>T\<bar> \<le> 2 ^ 63" using T0 T1 by simp
    then have "(of_int \<bar>T\<bar> :: rat) \<le> of_int (2 ^ 63)" by (simp only: of_int_le_iff)
    then have xu: "\<bar>?x\<bar> \<le> 2 ^ 63" by simp
    have "1 / 2 ^ 1022 \<le> \<bar>?x\<bar>" using xl by (rule order_trans [rotated]) simp
    moreover have "\<bar>?x\<bar> \<le> 2 ^ 1000" using xu by (rule order_trans) simp
    ultimately obtain x' where x': "round64 ?x = Finite x'"
        and xc: "\<bar>x' - ?x\<bar> \<le> 1 / 2 ^ 53 * \<bar>?x\<bar>"
        and xl': "\<bar>?x\<bar> / 2 \<le> \<bar>x'\<bar>" and xu': "\<bar>x'\<bar> \<le> 2 * \<bar>?x\<bar>"
      by (rule round64_rel)
    have x'l: "1 / 2 \<le> \<bar>x'\<bar>" using xl' xl by linarith
    have x'u: "\<bar>x'\<bar> \<le> 2 ^ 64" using xu' xu by simp
    have x'0: "x' \<noteq> 0" using x'l by auto
    have y'0: "y' \<noteq> 0" using ypos by simp
    have d: "fdiv (round64 ?x) (round64 ?y) = round64 (x' / y')"
      unfolding x' y' using x'0 y'0 by (rule fdiv_finite)
    have qa: "\<bar>x' / y'\<bar> = \<bar>x'\<bar> / \<bar>y'\<bar>" by simp
    have "(1 / 2) / 2 ^ 64 \<le> \<bar>x'\<bar> / \<bar>y'\<bar>"
      using y'u x'l y'l by (intro frac_le) simp_all
    then have ql: "1 / 2 ^ 65 \<le> \<bar>x' / y'\<bar>" unfolding qa by simp
    have "\<bar>x'\<bar> / \<bar>y'\<bar> \<le> 2 ^ 64 / (1 / 2)"
      using y'l x'u by (intro frac_le) simp_all
    then have qu: "\<bar>x' / y'\<bar> \<le> 2 ^ 65" unfolding qa by simp
    have "1 / 2 ^ 1022 \<le> \<bar>x' / y'\<bar>" using ql by (rule order_trans [rotated]) simp
    moreover have "\<bar>x' / y'\<bar> \<le> 2 ^ 1000" using qu by (rule order_trans) simp
    ultimately obtain q' where q': "round64 (x' / y') = Finite q'"
        and qc: "\<bar>q' - x' / y'\<bar> \<le> 1 / 2 ^ 53 * \<bar>x' / y'\<bar>"
        and ql': "\<bar>x' / y'\<bar> / 2 \<le> \<bar>q'\<bar>" and qu': "\<bar>q'\<bar> \<le> 2 * \<bar>x' / y'\<bar>"
      by (rule round64_rel)
    have "(1 / 2 ^ 65) / 2 \<le> \<bar>q'\<bar>" using ql' ql by (rule half_lower)
    then have q'l: "1 / 2 ^ 66 \<le> \<bar>q'\<bar>" by simp
    have "\<bar>q'\<bar> \<le> 2 * 2 ^ 65" using qu' qu by (rule twice_upper)
    then have q'u: "\<bar>q'\<bar> \<le> 2 ^ 66" by simp
    have q'0: "q' \<noteq> 0" using q'l by auto
    have m: "fmul (fdiv (round64 ?x) (round64 ?y)) (Finite 100) = round64 (q' * 100)"
      unfolding d q' using q'0 by (rule fmul_finite) simp
    have pa: "\<bar>q' * 100\<bar> = \<bar>q'\<bar> * 100" by (simp add: abs_mult)
    have "\<bar>q'\<bar> * 1 \<le> \<bar>q'\<bar> * 100" by (rule mult_left_mono) simp_all
    with q'l have "1 / 2 ^ 66 \<le> \<bar>q'\<bar> * 100" by simp
    then have "1 / 2 ^ 1022 \<le> \<bar>q'\<bar> * 100" by (rule order_trans [rotated]) simp
    moreover have "\<bar>q'\<bar> * 100 \<le> 2 ^ 66 * 100" using q'u by (rule mult_right_mono) simp
    then have "\<bar>q'\<bar> * 100 \<le> 2 ^ 1000" by (rule order_trans) simp
    ultimately obtain r' where r': "round64 (q' * 100) = Finite r'"
        and rc: "\<bar>r' - q' * 100\<bar> \<le> 1 / 2 ^ 53 * \<bar>q' * 100\<bar>"
      unfolding pa [symmetric] by (rule round64_rel)
    have y0: "?y \<noteq> 0" using yl by simp
    have e1: "\<bar>x' / y' - ?x / ?y\<bar> \<le> (1 / 2 ^ 53 + 1 / 2 ^ 53) / (1 - 1 / 2 ^ 53) * \<bar>?x / ?y\<bar>"
      using xc yc _ y0 by (rule close_div) simp
    have e2: "\<bar>q' - ?x / ?y\<bar> \<le> (1 / 2 ^ 53 + (1 / 2 ^ 53 + 1 / 2 ^ 53) / (1 - 1 / 2 ^ 53)
           + 1 / 2 ^ 53 * ((1 / 2 ^ 53 + 1 / 2 ^ 53) / (1 - 1 / 2 ^ 53))) * \<bar>?x / ?y\<bar>"
      using qc e1 by (rule close_trans) simp
    have "\<bar>q' * 100 - ?x / ?y * 100\<bar> = \<bar>q' - ?x / ?y\<bar> * 100"
      by (rule abs_times_100)
    also have "\<dots> \<le> (1 / 2 ^ 53 + (1 / 2 ^ 53 + 1 / 2 ^ 53) / (1 - 1 / 2 ^ 53)
           + 1 / 2 ^ 53 * ((1 / 2 ^ 53 + 1 / 2 ^ 53) / (1 - 1 / 2 ^ 53))) * \<bar>?x / ?y\<bar> * 100"
      using e2 by (rule mult_right_mono) simp
    also have "\<dots> = (1 / 2 ^ 53 + (1 / 2 ^ 53 + 1 / 2 ^ 53) / (1 - 1 / 2 ^ 53)
           + 1 / 2 ^ 53 * ((1 / 2 ^ 53 + 1 / 2 ^ 53) / (1 - 1 / 2 ^ 53))) * \<bar>?x / ?y * 100\<bar>"
      by (simp add: abs_mult)
    finally have e3: "\<bar>q' * 100 - ?x / ?y * 100\<bar> \<le> (1 / 2 ^ 53 + (1 / 2 ^ 53 + 1 / 2 ^ 53) / (1 - 1 / 2 ^ 53)
           + 1 / 2 ^ 53 * ((1 / 2 ^ 53 + 1 / 2 ^ 53) / (1 - 1 / 2 ^ 53))) * \<bar>?x / ?y * 100\<bar>" .
    have "\<bar>r' - ?x / ?y * 100\<bar> \<le> (1 / 2 ^ 53 + (1 / 2 ^ 53 + (1 / 2 ^ 53 + 1 / 2 ^ 53) / (1 - 1 / 2 ^ 53)
           + 1 / 2 ^ 53 * ((1 / 2 ^ 53 + 1 / 2 ^ 53) / (1 - 1 / 2 ^ 53)))
           + 1 / 2 ^ 53 * (1 / 2 ^ 53 + (1 / 2 ^ 53 + 1 / 2 ^ 53) / (1 - 1 / 2 ^ 53)
           + 1 / 2 ^ 53 * ((1 / 2 ^ 53 + 1 / 2 ^ 53) / (1 - 1 / 2 ^ 53)))) * \<bar>?x / ?y * 100\<bar>"
      using rc e3 by (rule close_trans) simp
    also have "\<dots> \<le> 1 / 2 ^ 50 * \<bar>?x / ?y * 100\<bar>"
      by (rule mult_right_mono) simp_all
    finally have "\<bar>r' - ?x / ?y * 100\<bar> \<le> \<bar>?x / ?y * 100\<bar> / 2 ^ 50" by simp
    with m r' show ?thesis by auto
  qed
qed


lemma roundHalfEven_of_int: "roundHalfEven (of_int z) = z"
  by (simp add: roundHalfEven_def)

lemma round64_int:
  assumes n0: "0 < n" and n1: "n < 2 ^ 53"
  shows "round64 (of_int n) = Finite (of_int n)"
proof -
  let ?q = "of_int n :: rat"
  let ?k = "binade ?q"
  have q: "0 < ?q" using n0 by simp
  have "(2::rat) powi 0 \<le> ?q" using n0 by simp
  also have "?q < 2 powi (?k + 1)" using q by (rule binade_upper)
  finally have "0 < ?k + 1" by (rule powi_less_imp)
  then have k0: "0 \<le> ?k" by simp
  have "(2::rat) powi ?k \<le> ?q" using q by (rule binade_lower)
  also have "?q < of_int (2 ^ 53)" using n1 by (simp only: of_int_less_iff)
  also have "of_int (2 ^ 53) = (2::rat) powi 53" by simp
  finally have k1: "?k < 53" by (rule powi_less_imp)
  define j where "j = nat (52 - ?k)"
  have ulp: "(2::rat) powi (?k - 52) = 1 / 2 ^ j"
  proof -
    have "?k - 52 = - int j" using k1 by (simp add: j_def)
    then have "(2::rat) powi (?k - 52) = 2 powi (- int j)" by simp
    also have "\<dots> = 1 / 2 ^ j" by (simp add: power_int_minus divide_inverse)
    finally show ?thesis .
  qed
  have "?q / (1 / 2 ^ j) = of_int (n * 2 ^ j)" by simp
  then have r: "roundHalfEven (\<bar>?q\<bar> / 2 powi (?k - 52)) = n * 2 ^ j"
    using q by (simp only: ulp abs_of_pos roundHalfEven_of_int)
  show ?thesis
  proof (rule round64_evalI [where k = ?k and r = "n * 2 ^ j"])
    show "?q \<noteq> 0" using n0 by simp
    show "2 powi ?k \<le> \<bar>?q\<bar>" using binade_lower [OF q] q by simp
    show "\<bar>?q\<bar> < 2 powi (?k + 1)" using binade_upper [OF q] q by simp
    show "- 1022 \<le> ?k" using k0 by simp
    show "roundHalfEven (\<bar>?q\<bar> / 2 powi (?k - 52)) = n * 2 ^ j" by (rule r)
    show "n * 2 ^ j \<noteq> 0" using n0 by simp
    have m: "of_int (n * 2 ^ j) * (2::rat) powi (?k - 52) = ?q" by (simp add: ulp)
    have "?q < of_int (2 ^ 53)" using n1 by (simp only: of_int_less_iff)
    also have "\<dots> \<le> (2::rat) ^ 1024" by simp
    finally show "\<not> 2 ^ 1024 \<le> of_int (n * 2 ^ j) * (2::rat) powi (?k - 52)"
      unfolding m by simp
    show "?q = (if 0 < ?q then of_int (n * 2 ^ j) * 2 powi (?k - 52)
                else - (of_int (n * 2 ^ j) * 2 powi (?k - 52)))"
      unfolding m using q by simp
  qed
qed

lemma float64_of_int64_zero: "float64_of_int64 0 = Finite 0"
  by (simp add: float64_of_int64_def round64_def)

lemma float64_of_int64_exact:
  assumes "0 < sint x" and "sint x < 2 ^ 53"
  shows "float64_of_int64 x = Finite (of_int (sint x))"
  unfolding float64_of_int64_def using assms by (rule round64_int)

lemma performance_zero:
  assumes "0 < b"
  shows "fmul (fdiv (Finite 0) (Finite b)) (Finite 100) = Finite 0"
  using assms
  by (simp add: fdiv_def fmul_def isZero_def isInf_def negative_def signedZero_def)

lemma performance_no_panel: "fmul (fdiv (Finite 0) (Finite 0)) (Finite 100) = NaN"
  by (simp add: fdiv_def fmul_def isZero_def)

text \<open>100 W over two panels: both roundings are exact, \<open>100 / 500\<close> is not.\<close>

lemma performance_sample: "fmul (fdiv (Finite 100) (Finite 500)) (Finite 100) = Finite 20"
proof -
  have "fdiv (Finite 100) (Finite 500) = round64 (100 / 500)"
    by (rule fdiv_finite) simp_all
  then have "fmul (fdiv (Finite 100) (Finite 500)) (Finite 100) =
      fmul (Finite (3602879701896397 / 18014398509481984)) (Finite 100)"
    by (simp only: round64_sample_quotient)
  also have "\<dots> = round64 (3602879701896397 / 18014398509481984 * 100)"
    by (rule fmul_finite) simp_all
  finally show ?thesis
    by (simp only: round64_sample_product)
qed

text \<open>7 W over one panel: the result is the \<open>float64\<close> next above \<open>2.8\<close>.\<close>

lemma round64_seven_quotient:
  "round64 (7 / 250) = Finite (8070450532247929 / 288230376151711744)"
  by (rule round64_evalI [where k = "- 6" and r = 8070450532247929])
    (simp_all add: evalHalfEven)

lemma round64_seven_product:
  "round64 (8070450532247929 / 288230376151711744 * 100) =
     Finite (6305039478318695 / 2251799813685248)"
  by (rule round64_evalI [where k = 1 and r = 6305039478318695])
    (simp_all add: evalHalfEven)

lemma performance_seven:
  "fmul (fdiv (Finite 7) (Finite 250)) (Finite 100) =
     Finite (6305039478318695 / 2251799813685248)"
proof -
  have "fdiv (Finite 7) (Finite 250) = round64 (7 / 250)"
    by (rule fdiv_finite) simp_all
  then have "fmul (fdiv (Finite 7) (Finite 250)) (Finite 100) =
      fmul (Finite (8070450532247929 / 288230376151711744)) (Finite 100)"
    by (simp only: round64_seven_quotient)
  also have "\<dots> = round64 (8070450532247929 / 288230376151711744 * 100)"
    by (rule fmul_finite) simp_all
  finally show ?thesis
    by (simp only: round64_seven_product)
qed

section \<open>Properties of the numeric cells\<close>

lemmas evalField = numericField_def ParseInt_def FindAllString.simps matchHere_def optChar_def
  isDigit_def digitOrComma_def digitOrBrace_def decimal_def digitVal_def

lemma takeWhile_dropWhile_same: "takeWhile P (dropWhile P xs) = []"
  by (induction xs) simp_all

lemma plain_Cons: "plain (c # cs) \<Longrightarrow> plain cs"
  by (simp add: plain_def)

lemma plain_dropWhile: "plain s \<Longrightarrow> plain (dropWhile P s)"
  unfolding plain_def using set_dropWhileD by fast

lemma isDigit_two: "isDigit (CHR ''2'')"
  by (simp add: isDigit_def)

lemma not_isDigit_special:
  "\<not> isDigit (CHR ''-'')" "\<not> isDigit (CHR ''+'')" "\<not> isDigit (CHR '','')"
  "\<not> isDigit (CHR ''.'')" "\<not> isDigit (CHR ''{'')" "\<not> isDigit (CHR ''}'')"
  by (simp_all add: isDigit_def)

lemma plain_digitOrBrace: "plain s \<Longrightarrow> c \<in> set s \<Longrightarrow> digitOrBrace c = isDigit c"
  unfolding plain_def digitOrBrace_def using isDigit_two by auto

lemma plain_digitOrComma: "plain s \<Longrightarrow> c \<in> set s \<Longrightarrow> digitOrComma c = isDigit c"
  unfolding plain_def digitOrComma_def by auto

lemma takeWhile_plain:
  "plain s \<Longrightarrow> takeWhile digitOrComma s = takeWhile isDigit s"
  by (rule takeWhile_cong [OF refl]) (rule plain_digitOrComma)

lemma dropWhile_plain:
  "plain s \<Longrightarrow> dropWhile digitOrComma s = dropWhile isDigit s"
  by (rule dropWhile_cong [OF refl]) (rule plain_digitOrComma)

lemma takeWhile_plain2:
  "plain s \<Longrightarrow> takeWhile digitOrBrace s = takeWhile isDigit s"
  by (rule takeWhile_cong [OF refl]) (rule plain_digitOrBrace)

lemma dropWhile_plain2:
  "plain s \<Longrightarrow> dropWhile digitOrBrace s = dropWhile isDigit s"
  by (rule dropWhile_cong [OF refl]) (rule plain_digitOrBrace)

lemma optChar_plain:
  assumes "plain s" and "c \<in> set ''-,.{}''"
  shows "optChar c s = ([], s)"
proof (cases s)
  case Nil
  then show ?thesis by (simp add: optChar_def)
next
  case (Cons x xs)
  with assms have "x \<noteq> c" by (auto simp: plain_def)
  with Cons show ?thesis by (simp add: optChar_def)
qed

lemma matchHere_plain:
  assumes "plain (d # s2)"
  shows "matchHere (d # s2) =
           (if isDigit d then Some (d # takeWhile isDigit s2, dropWhile isDigit s2) else None)"
proof -
  have p2: "plain s2" using assms by (rule plain_Cons)
  have p3: "plain (dropWhile isDigit s2)" using p2 by (rule plain_dropWhile)
  have o1: "optChar (CHR ''-'') (d # s2) = ([], d # s2)"
    using assms by (rule optChar_plain) simp
  have o2: "optChar (CHR ''.'') (dropWhile isDigit s2) = ([], dropWhile isDigit s2)"
    using p3 by (rule optChar_plain) simp
  show ?thesis
    unfolding matchHere_def o1
    by (simp add: takeWhile_plain [OF p2] dropWhile_plain [OF p2] o2
        takeWhile_plain2 [OF p3] dropWhile_plain2 [OF p3] takeWhile_dropWhile_same)
qed

lemma concat_FindAllString_plain:
  "plain s \<Longrightarrow> concat (FindAllString s) = filter isDigit s"
proof (induction s rule: FindAllString.induct)
  case (1 s)
  show ?case
  proof (cases s)
    case Nil
    then show ?thesis by (simp add: FindAllString.simps)
  next
    case (Cons d s2)
    have m: "matchHere s =
        (if isDigit d then Some (d # takeWhile isDigit s2, dropWhile isDigit s2) else None)"
      using "1.prems" unfolding Cons by (rule matchHere_plain)
    have p2: "plain s2" using "1.prems" unfolding Cons by (rule plain_Cons)
    show ?thesis
    proof (cases "isDigit d")
      case True
      with m have ms: "matchHere s = Some (d # takeWhile isDigit s2, dropWhile isDigit s2)"
        by simp
      have "concat (FindAllString (dropWhile isDigit s2)) = filter isDigit (dropWhile isDigit s2)"
        using "1.IH"(2) [OF _ ms refl] Cons plain_dropWhile [OF p2] by simp
      moreover have "filter isDigit s2 =
          takeWhile isDigit s2 @ filter isDigit (dropWhile isDigit s2)"
        by (induction s2) simp_all
      ultimately show ?thesis
        using True ms Cons by (subst FindAllString.simps) simp
    next
      case False
      with m have ms: "matchHere s = None" by simp
      have "concat (FindAllString (tl s)) = filter isDigit (tl s)"
        using "1.IH"(1) [OF _ ms] Cons p2 by simp
      then show ?thesis
        using False ms Cons by (subst FindAllString.simps) simp
    qed
  qed
qed

lemma matchHere_no_digit:
  assumes "\<forall>c\<in>set s. \<not> isDigit c"
  shows "matchHere s = None"
proof -
  obtain sign s1 where o: "optChar (CHR ''-'') s = (sign, s1)"
    by (cases "optChar (CHR ''-'') s")
  then have "set s1 \<subseteq> set s"
    by (auto simp: optChar_def split: list.splits if_splits)
  with assms have "\<forall>c\<in>set s1. \<not> isDigit c" by blast
  with o show ?thesis
    by (cases s1) (simp_all add: matchHere_def)
qed

lemma FindAllString_no_digit:
  "\<forall>c\<in>set s. \<not> isDigit c \<Longrightarrow> FindAllString s = []"
proof (induction s)
  case Nil
  then show ?case by (simp add: FindAllString.simps)
next
  case (Cons c cs)
  from Cons.prems have "matchHere (c # cs) = None"
    by (rule matchHere_no_digit)
  moreover from Cons have "FindAllString cs = []" by simp
  ultimately show ?case
    by (subst FindAllString.simps) simp
qed

lemma ParseInt_digits:
  assumes "ds \<noteq> []" and "list_all isDigit ds"
  shows "ParseInt ds = (if decimal ds < 2 ^ 63 then Some (word_of_nat (decimal ds)) else None)"
proof -
  from assms obtain c cs where ds: "ds = c # cs" by (cases ds) auto
  with assms have "isDigit c" by simp
  then have "c \<noteq> CHR ''-''" "c \<noteq> CHR ''+''"
    using not_isDigit_special by auto
  with assms ds show ?thesis
    by (simp add: ParseInt_def Let_def not_le)
qed

lemma ParseInt_not_digit:
  assumes "c \<in> set s" and "\<not> isDigit c" and "c \<noteq> CHR ''-''" and "c \<noteq> CHR ''+''"
  shows "ParseInt s = None"
proof (cases s)
  case Nil
  then show ?thesis by (simp add: ParseInt_def)
next
  case (Cons x xs)
  show ?thesis
  proof (cases "x = CHR ''+'' \<or> x = CHR ''-''")
    case True
    with assms Cons have "c \<in> set xs" by auto
    with assms(2) have "\<not> list_all isDigit xs" by (auto simp: list_all_iff)
    with True Cons show ?thesis by (auto simp: ParseInt_def Let_def)
  next
    case False
    from assms(1,2) have "\<not> list_all isDigit s" by (auto simp: list_all_iff)
    with False Cons show ?thesis by (auto simp: ParseInt_def Let_def)
  qed
qed

lemma matchHere_skip:
  assumes "\<not> isDigit c" and "c = CHR ''-'' \<longrightarrow> s = [] \<or> \<not> isDigit (hd s)"
  shows "matchHere (c # s) = None"
proof (cases "c = CHR ''-''")
  case True
  then have o: "optChar (CHR ''-'') (c # s) = ([c], s)"
    by (simp add: optChar_def)
  from True assms(2) show ?thesis
    unfolding matchHere_def o by (cases s) auto
next
  case False
  then have o: "optChar (CHR ''-'') (c # s) = ([], c # s)"
    by (simp add: optChar_def)
  from assms(1) show ?thesis
    unfolding matchHere_def o by simp
qed

lemma FindAllString_skip:
  assumes "\<forall>c\<in>set pre. \<not> isDigit c"
    and "pre \<noteq> [] \<and> last pre = CHR ''-'' \<longrightarrow> s = [] \<or> \<not> isDigit (hd s)"
  shows "FindAllString (pre @ s) = FindAllString s"
  using assms
proof (induction pre)
  case Nil
  show ?case by simp
next
  case (Cons c pre)
  have "c = CHR ''-'' \<longrightarrow> pre @ s = [] \<or> \<not> isDigit (hd (pre @ s))"
  proof (cases pre)
    case Nil
    with Cons.prems(2) show ?thesis by simp
  next
    case (Cons x xs)
    with Cons.prems(1) show ?thesis by simp
  qed
  with Cons.prems(1) have "matchHere (c # pre @ s) = None"
    by (intro matchHere_skip) simp_all
  then have "FindAllString ((c # pre) @ s) = FindAllString (pre @ s)"
    by (subst FindAllString.simps) simp
  also have "\<dots> = FindAllString s"
  proof (rule Cons.IH)
    from Cons.prems(1) show "\<forall>c\<in>set pre. \<not> isDigit c" by simp
    from Cons.prems(2) show "pre \<noteq> [] \<and> last pre = CHR ''-'' \<longrightarrow> s = [] \<or> \<not> isDigit (hd s)"
      by simp
  qed
  finally show ?case .
qed

lemma matchHere_minus_plain:
  assumes "plain (d # s2)" and "isDigit d"
  shows "matchHere (CHR ''-'' # d # s2) =
           Some (CHR ''-'' # d # takeWhile isDigit s2, dropWhile isDigit s2)"
proof -
  have p2: "plain s2" using assms(1) by (rule plain_Cons)
  have p3: "plain (dropWhile isDigit s2)" using p2 by (rule plain_dropWhile)
  have o1: "optChar (CHR ''-'') (CHR ''-'' # d # s2) = ([CHR ''-''], d # s2)"
    by (simp add: optChar_def)
  have o2: "optChar (CHR ''.'') (dropWhile isDigit s2) = ([], dropWhile isDigit s2)"
    using p3 by (rule optChar_plain) simp
  show ?thesis
    unfolding matchHere_def o1 using assms(2)
    by (simp add: takeWhile_plain [OF p2] dropWhile_plain [OF p2] o2
        takeWhile_plain2 [OF p3] dropWhile_plain2 [OF p3] takeWhile_dropWhile_same)
qed

lemma filter_takeWhile_dropWhile:
  "filter P xs = takeWhile P xs @ filter P (dropWhile P xs)"
  by (induction xs) simp_all

lemma concat_FindAllString_minus:
  assumes "plain rest" and "rest \<noteq> []" and "isDigit (hd rest)"
  shows "concat (FindAllString (CHR ''-'' # rest)) = CHR ''-'' # filter isDigit rest"
proof -
  from assms(2) obtain d s2 where r: "rest = d # s2" by (cases rest) auto
  with assms have p: "plain (d # s2)" and d: "isDigit d" by simp_all
  have p3: "plain (dropWhile isDigit s2)"
    using plain_Cons [OF p] by (rule plain_dropWhile)
  have "FindAllString (CHR ''-'' # d # s2) =
      (CHR ''-'' # d # takeWhile isDigit s2) # FindAllString (dropWhile isDigit s2)"
    by (subst FindAllString.simps) (simp add: matchHere_minus_plain [OF p d])
  then have "concat (FindAllString (CHR ''-'' # d # s2)) =
      CHR ''-'' # d # takeWhile isDigit s2 @ filter isDigit (dropWhile isDigit s2)"
    by (simp add: concat_FindAllString_plain [OF p3])
  also have "\<dots> = CHR ''-'' # filter isDigit (d # s2)"
    using d filter_takeWhile_dropWhile [of isDigit s2] by simp
  finally show ?thesis unfolding r .
qed

lemma ParseInt_minus_digits:
  assumes "ds \<noteq> []" and "list_all isDigit ds"
  shows "ParseInt (CHR ''-'' # ds) =
    (if decimal ds \<le> 2 ^ 63 then Some (- word_of_nat (decimal ds)) else None)"
  using assms by (simp add: ParseInt_def Let_def not_le)

lemma matchHere_separator:
  assumes "isDigit d" and "list_all isDigit ds" and "sep = CHR '','' \<or> sep = CHR ''.''"
    and "sg = [] \<or> sg = [CHR ''-'']"
  shows "\<exists>m r. matchHere (sg @ d # ds @ sep # rest) = Some (m, r) \<and> sep \<in> set m"
proof -
  from assms(1) have dm: "d \<noteq> CHR ''-''"
    using not_isDigit_special by auto
  with assms(4) have o1: "optChar (CHR ''-'') (sg @ d # ds @ sep # rest) = (sg, d # ds @ sep # rest)"
    by (auto simp: optChar_def)
  from assms(2) have dc: "\<forall>c\<in>set ds. digitOrComma c"
    by (simp add: list_all_iff digitOrComma_def)
  from assms(3) show ?thesis
  proof
    assume c: "sep = CHR '',''"
    then have "takeWhile digitOrComma (ds @ sep # rest) = ds @ sep # takeWhile digitOrComma rest"
      using dc by (simp add: takeWhile_append2 digitOrComma_def)
    then show ?thesis
      unfolding matchHere_def o1 using assms(1)
      by (simp add: Let_def split: prod.splits)
  next
    assume c: "sep = CHR ''.''"
    then have n: "\<not> digitOrComma sep"
      using not_isDigit_special by (simp add: digitOrComma_def)
    have t: "takeWhile digitOrComma (ds @ sep # rest) = ds"
      using dc n by (simp add: takeWhile_append2)
    have dr: "dropWhile digitOrComma (ds @ sep # rest) = sep # rest"
      using dc n by (simp add: dropWhile_append2)
    have o2: "optChar (CHR ''.'') (sep # rest) = ([sep], rest)"
      using c by (simp add: optChar_def)
    show ?thesis
      unfolding matchHere_def o1 using assms(1)
      by (simp add: Let_def t dr o2)
  qed
qed

lemma numericField_separator:
  assumes "\<forall>c\<in>set pre. \<not> isDigit c" and "ds \<noteq> []" and "list_all isDigit ds"
    and "sep = CHR '','' \<or> sep = CHR ''.''"
  shows "numericField (pre @ ds @ sep # rest) = 0"
proof -
  from assms(2,3) obtain d ds' where ds: "ds = d # ds'" and d: "isDigit d"
    and ds': "list_all isDigit ds'"
    by (cases ds) auto
  have "\<exists>sg. (sg = [] \<or> sg = [CHR ''-'']) \<and>
      FindAllString (pre @ ds @ sep # rest) = FindAllString (sg @ ds @ sep # rest)"
  proof (cases "pre \<noteq> [] \<and> last pre = CHR ''-''")
    case True
    then have pre: "pre = butlast pre @ [CHR ''-'']"
      using append_butlast_last_id [of pre] by simp
    have "FindAllString (butlast pre @ (CHR ''-'' # ds @ sep # rest)) =
        FindAllString (CHR ''-'' # ds @ sep # rest)"
    proof (rule FindAllString_skip)
      show "\<forall>c\<in>set (butlast pre). \<not> isDigit c"
        using assms(1) by (auto dest: in_set_butlastD)
      show "butlast pre \<noteq> [] \<and> last (butlast pre) = CHR ''-'' \<longrightarrow>
          CHR ''-'' # ds @ sep # rest = [] \<or> \<not> isDigit (hd (CHR ''-'' # ds @ sep # rest))"
        using not_isDigit_special by simp
    qed
    moreover have "butlast pre @ (CHR ''-'' # ds @ sep # rest) = pre @ ds @ sep # rest"
      by (subst (2) pre) simp
    ultimately have "FindAllString (pre @ ds @ sep # rest) =
        FindAllString ([CHR ''-''] @ ds @ sep # rest)"
      by simp
    then show ?thesis by blast
  next
    case False
    with assms(1) have "FindAllString (pre @ (ds @ sep # rest)) = FindAllString (ds @ sep # rest)"
      by (intro FindAllString_skip) auto
    then have "FindAllString (pre @ ds @ sep # rest) = FindAllString ([] @ ds @ sep # rest)"
      by simp
    then show ?thesis by blast
  qed
  then obtain sg where sg: "sg = [] \<or> sg = [CHR ''-'']"
    and f: "FindAllString (pre @ ds @ sep # rest) = FindAllString (sg @ ds @ sep # rest)"
    by blast
  from matchHere_separator [OF d ds' assms(4) sg]
  obtain m r where m: "matchHere (sg @ d # ds' @ sep # rest) = Some (m, r)" and s: "sep \<in> set m"
    by blast
  have "FindAllString (sg @ d # ds' @ sep # rest) = m # FindAllString r"
    by (subst FindAllString.simps) (simp add: m)
  with f have "sep \<in> set (concat (FindAllString (pre @ ds @ sep # rest)))"
    using s by (simp add: ds)
  moreover from assms(4) have "\<not> isDigit sep" "sep \<noteq> CHR ''-''" "sep \<noteq> CHR ''+''"
    using not_isDigit_special by auto
  ultimately have "ParseInt (concat (FindAllString (pre @ ds @ sep # rest))) = None"
    by (rule ParseInt_not_digit)
  then show ?thesis
    by (simp add: numericField_def)
qed

lemma numericField_plain:
  assumes "\<forall>c\<in>set pre. \<not> isDigit c" and "pre = [] \<or> last pre \<noteq> CHR ''-''" and "plain rest"
  shows "numericField (pre @ rest) =
        (if decimal (filter isDigit rest) < 2 ^ 63
         then word_of_nat (decimal (filter isDigit rest)) else 0)"
proof -
  from assms(1,2) have "FindAllString (pre @ rest) = FindAllString rest"
    by (intro FindAllString_skip) auto
  then have j: "concat (FindAllString (pre @ rest)) = filter isDigit rest"
    using assms(3) by (simp add: concat_FindAllString_plain)
  show ?thesis
  proof (cases "filter isDigit rest = []")
    case True
    then show ?thesis
      by (simp add: numericField_def j ParseInt_def decimal_def)
  next
    case False
    moreover have "list_all isDigit (filter isDigit rest)"
      by (simp add: list_all_iff)
    ultimately show ?thesis
      by (simp add: numericField_def j ParseInt_digits)
  qed
qed

lemma numericField_minus:
  assumes "\<forall>c\<in>set pre. \<not> isDigit c" and "plain rest" and "rest \<noteq> []" and "isDigit (hd rest)"
  shows "numericField (pre @ CHR ''-'' # rest) =
        (if decimal (filter isDigit rest) \<le> 2 ^ 63
         then - word_of_nat (decimal (filter isDigit rest)) else 0)"
proof -
  have "FindAllString (pre @ (CHR ''-'' # rest)) = FindAllString (CHR ''-'' # rest)"
    using assms(1) not_isDigit_special by (intro FindAllString_skip) auto
  then have j: "concat (FindAllString (pre @ CHR ''-'' # rest)) = CHR ''-'' # filter isDigit rest"
    using assms(2,3,4) by (simp add: concat_FindAllString_minus)
  from assms(3,4) have "filter isDigit rest \<noteq> []"
    by (cases rest) auto
  moreover have "list_all isDigit (filter isDigit rest)"
    by (simp add: list_all_iff)
  ultimately show ?thesis
    by (simp add: numericField_def j ParseInt_minus_digits)
qed

text \<open>
  Claim C1, as the code has it.  The value of a numeric cell is the concatenation of all
  the matches of the expression in the cell's text, not only the first, parsed as a decimal
  \<open>int64\<close> with nothing stripped.  So: a cell with no digit gives zero; after any text
  without digits, a text of digits and other characters (no minus sign, comma, decimal point
  or brace) gives the number that all its digits spell in order when that is below \<open>2^63\<close>,
  and zero otherwise; a minus sign right before its first digit gives the negative of that
  number, down to \<open>-2^63\<close>; and as soon as a match holds a comma or a decimal point, as it
  does when one of them follows the first digits of the cell, the parse fails and the field
  is zero.  The power, the voltage and the temperature of the reading of a row are these
  values of its cells 2, 4 and 5, and that reading is what a row that is kept stores under
  its identifier.
\<close>

theorem numericField_cases:
  "((\<forall>c\<in>set cell. \<not> isDigit c) \<longrightarrow> numericField cell = 0) \<and>
   ((\<forall>c\<in>set pre. \<not> isDigit c) \<and> (pre = [] \<or> last pre \<noteq> CHR ''-'') \<and>
    (\<forall>c\<in>set rest. c \<notin> set ''-,.{}'') \<longrightarrow>
      numericField (pre @ rest) =
        (if decimal (filter isDigit rest) < 2 ^ 63
         then word_of_nat (decimal (filter isDigit rest)) else 0)) \<and>
   ((\<forall>c\<in>set lead. \<not> isDigit c) \<and> (\<forall>c\<in>set body. c \<notin> set ''-,.{}'') \<and>
    body \<noteq> [] \<and> isDigit (hd body) \<longrightarrow>
      numericField (lead @ CHR ''-'' # body) =
        (if decimal (filter isDigit body) \<le> 2 ^ 63
         then - word_of_nat (decimal (filter isDigit body)) else 0)) \<and>
   ((\<exists>c\<in>set (concat (FindAllString cell)). c = CHR '','' \<or> c = CHR ''.'') \<longrightarrow>
      numericField cell = 0) \<and>
   ((\<forall>c\<in>set front. \<not> isDigit c) \<and> ds \<noteq> [] \<and> list_all isDigit ds \<and>
    (sep = CHR '','' \<or> sep = CHR ''.'') \<longrightarrow>
      numericField (front @ ds @ sep # rear) = 0) \<and>
   CurrentPower (rowLiveData e) = numericField (ChildText e 2) \<and>
   Voltage (rowLiveData e) = numericField (ChildText e 4) \<and>
   Temperature (rowLiveData e) = numericField (ChildText e 5) \<and>
   (\<not> EqualFold (ChildText e 1) ''Inverter ID'' \<and> numericField (ChildText e 2) \<noteq> 0 \<longrightarrow>
      onRow dataMap e (ChildText e 1) =
        Some \<lparr>CurrentPower = numericField (ChildText e 2),
              Voltage = numericField (ChildText e 4),
              Temperature = numericField (ChildText e 5),
              Date = ChildText e 6\<rparr>)"
proof (intro conjI impI)
  assume "\<forall>c\<in>set cell. \<not> isDigit c"
  then have "FindAllString cell = []" by (rule FindAllString_no_digit)
  then show "numericField cell = 0"
    by (simp add: numericField_def ParseInt_def)
next
  assume a: "(\<forall>c\<in>set pre. \<not> isDigit c) \<and> (pre = [] \<or> last pre \<noteq> CHR ''-'') \<and>
    (\<forall>c\<in>set rest. c \<notin> set ''-,.{}'')"
  then have "plain rest" by (simp add: plain_def)
  with a show "numericField (pre @ rest) =
        (if decimal (filter isDigit rest) < 2 ^ 63
         then word_of_nat (decimal (filter isDigit rest)) else 0)"
    by (intro numericField_plain) simp_all
next
  assume a: "(\<forall>c\<in>set lead. \<not> isDigit c) \<and> (\<forall>c\<in>set body. c \<notin> set ''-,.{}'') \<and>
    body \<noteq> [] \<and> isDigit (hd body)"
  then have "plain body" by (simp add: plain_def)
  with a show "numericField (lead @ CHR ''-'' # body) =
        (if decimal (filter isDigit body) \<le> 2 ^ 63
         then - word_of_nat (decimal (filter isDigit body)) else 0)"
    by (intro numericField_minus) simp_all
next
  assume "\<exists>c\<in>set (concat (FindAllString cell)). c = CHR '','' \<or> c = CHR ''.''"
  then obtain c where c: "c \<in> set (concat (FindAllString cell))" "c = CHR '','' \<or> c = CHR ''.''"
    by blast
  from c(2) have "\<not> isDigit c" "c \<noteq> CHR ''-''" "c \<noteq> CHR ''+''"
    using not_isDigit_special by auto
  with c(1) have "ParseInt (concat (FindAllString cell)) = None"
    by (rule ParseInt_not_digit)
  then show "numericField cell = 0"
    by (simp add: numericField_def)
next
  assume "(\<forall>c\<in>set front. \<not> isDigit c) \<and> ds \<noteq> [] \<and> list_all isDigit ds \<and>
    (sep = CHR '','' \<or> sep = CHR ''.'')"
  then show "numericField (front @ ds @ sep # rear) = 0"
    by (intro numericField_separator) simp_all
next
  show "CurrentPower (rowLiveData e) = numericField (ChildText e 2)"
    by (simp add: rowLiveData_def)
  show "Voltage (rowLiveData e) = numericField (ChildText e 4)"
    by (simp add: rowLiveData_def)
  show "Temperature (rowLiveData e) = numericField (ChildText e 5)"
    by (simp add: rowLiveData_def)
next
  assume "\<not> EqualFold (ChildText e 1) ''Inverter ID'' \<and> numericField (ChildText e 2) \<noteq> 0"
  then show "onRow dataMap e (ChildText e 1) =
        Some \<lparr>CurrentPower = numericField (ChildText e 2),
              Voltage = numericField (ChildText e 4),
              Temperature = numericField (ChildText e 5),
              Date = ChildText e 6\<rparr>"
    by (simp add: onRow_def rowLiveData_def Let_def)
qed

text \<open>
  The cases at \<open>"N/A"\<close>, at \<open>"Power: 12 W 34"\<close> (two matches, joined), at
  \<open>"about -5 C"\<close>, at \<open>"1,234.5 W"\<close> and \<open>"230.5 V"\<close>, and a row with a power, no voltage
  and a temperature below zero.
\<close>

theorem numericField_cases_witness:
  "numericField ''N/A'' = 0 \<and>
   numericField ''Power: 12 W 34'' = 1234 \<and>
   numericField ''about -5 C'' = - 5 \<and>
   numericField ''1,234.5 W'' = 0 \<and>
   numericField ''230.5 V'' = 0 \<and>
   onRow Map.empty [''INV1'', ''1234 W'', '''', ''N/A'', ''-5 C'', ''10:00''] ''INV1'' =
     Some \<lparr>CurrentPower = 1234, Voltage = 0, Temperature = - 5, Date = ''10:00''\<rparr>"
proof -
  note t = numericField_cases [where cell = "''N/A''" and pre = "''Power: ''"
      and rest = "''12 W 34''" and lead = "''about ''" and body = "''5 C''"
      and front = "''''" and ds = "''1''" and sep = "CHR '',''" and rear = "''234.5 W''"
      and e = "[''INV1'', ''1234 W'', '''', ''N/A'', ''-5 C'', ''10:00'']"
      and dataMap = Map.empty]
  note u = numericField_cases [where cell = "''230.5 V''" and front = "''''" and ds = "''230''"
      and sep = "CHR ''.''" and rear = "''5 V''"]
  have f: "numericField ''1234 W'' = 1234" "numericField ''-5 C'' = - 5"
    by (simp_all add: evalField)
  have "numericField ''N/A'' = 0"
    using t [THEN conjunct1] by (simp add: isDigit_def)
  moreover have "numericField ''Power: 12 W 34'' = 1234"
    using t [THEN conjunct2, THEN conjunct1]
    by (simp add: isDigit_def decimal_def digitVal_def)
  moreover have "numericField ''about -5 C'' = - 5"
    using t [THEN conjunct2, THEN conjunct2, THEN conjunct1]
    by (simp add: isDigit_def decimal_def digitVal_def)
  moreover have "numericField ''1,234.5 W'' = 0"
    using t [THEN conjunct2, THEN conjunct2, THEN conjunct2, THEN conjunct2, THEN conjunct1]
    by (simp add: isDigit_def)
  moreover have "numericField ''230.5 V'' = 0"
    using u [THEN conjunct2, THEN conjunct2, THEN conjunct2, THEN conjunct2, THEN conjunct1]
    by (simp add: isDigit_def)
  moreover have "onRow Map.empty [''INV1'', ''1234 W'', '''', ''N/A'', ''-5 C'', ''10:00''] ''INV1'' =
     Some \<lparr>CurrentPower = 1234, Voltage = 0, Temperature = - 5, Date = ''10:00''\<rparr>"
    using t [THEN conjunct2, THEN conjunct2, THEN conjunct2, THEN conjunct2, THEN conjunct2,
        THEN conjunct2, THEN conjunct2, THEN conjunct2] \<open>numericField ''N/A'' = 0\<close>
    by (simp add: ChildText_def EqualFold_def asciiLower_def f)
  ultimately show ?thesis by simp
qed

text \<open>
  Claim C1 as the specification words it fails: for the cell \<open>"1,234 W"\<close> the only match
  is \<open>"1,234"\<close>, the comma stays, \<open>ParseInt\<close> returns an error and the field is 0 where
  stripping the separator would give 1234; for \<open>"12 W 34"\<close> the field is 1234 where the
  first run alone is 12.
\<close>

theorem numericField_separator_counterexample:
  "FindAllString ''1,234 W'' = [''1,234''] \<and> numericField ''1,234 W'' = 0 \<and>
   FindAllString ''12 W 34'' = [''12'', ''34''] \<and> numericField ''12 W 34'' = 1234"
  by (simp add: evalField)

section \<open>Properties of the row callback and of parseRealTime\<close>

lemma onRow_kept:
  "onRow dataMap e = (if kept e then dataMap(ChildText e 1 \<mapsto> rowLiveData e) else dataMap)"
  by (simp add: onRow_def kept_def rowLiveData_def Let_def)

lemma foldl_onRow_lookup:
  "foldl onRow dataMap rows k =
     (if filter (\<lambda>e. kept e \<and> ChildText e 1 = k) rows = [] then dataMap k
      else Some (rowLiveData (last (filter (\<lambda>e. kept e \<and> ChildText e 1 = k) rows))))"
proof (induction rows rule: rev_induct)
  case Nil
  show ?case by simp
next
  case (snoc e rows)
  show ?case
  proof (cases "kept e \<and> ChildText e 1 = k")
    case True
    then show ?thesis
      by (simp add: onRow_kept)
  next
    case False
    then have "filter (\<lambda>e. kept e \<and> ChildText e 1 = k) (rows @ [e])
             = filter (\<lambda>e. kept e \<and> ChildText e 1 = k) rows"
      by auto
    moreover from False have "foldl onRow dataMap (rows @ [e]) k = foldl onRow dataMap rows k"
      by (auto simp: onRow_kept)
    ultimately show ?thesis using snoc.IH by simp
  qed
qed

lemma parseRealTime_lookup:
  "parseRealTime (Page rows) k =
     (if filter (\<lambda>e. kept e \<and> ChildText e 1 = k) rows = [] then None
      else Some (rowLiveData (last (filter (\<lambda>e. kept e \<and> ChildText e 1 = k) rows))))"
  by (simp add: parseRealTime_def foldl_onRow_lookup)

text \<open>
  Claim C4.  A row whose extracted power is 0, among them every row whose power cell holds
  no digit, leaves the mapping as it was: the callback returns before the assignment.
  Hence an identifier all of whose rows have power 0 has no entry in the result.
\<close>

theorem zero_power_row_discarded:
  "((numericField (ChildText e 2) = 0 \<or> (\<forall>c\<in>set (ChildText e 2). \<not> isDigit c)) \<longrightarrow>
      onRow dataMap e = dataMap) \<and>
   ((\<forall>e\<in>set rows. ChildText e 1 = k \<longrightarrow> numericField (ChildText e 2) = 0) \<longrightarrow>
      parseRealTime (Page rows) k = None)"
proof (intro conjI impI)
  assume "numericField (ChildText e 2) = 0 \<or> (\<forall>c\<in>set (ChildText e 2). \<not> isDigit c)"
  then have "numericField (ChildText e 2) = 0"
    using FindAllString_no_digit [of "ChildText e 2"]
    by (auto simp: numericField_def ParseInt_def)
  then show "onRow dataMap e = dataMap"
    by (simp add: onRow_def rowLiveData_def Let_def)
next
  assume "\<forall>e\<in>set rows. ChildText e 1 = k \<longrightarrow> numericField (ChildText e 2) = 0"
  then have "filter (\<lambda>e. kept e \<and> ChildText e 1 = k) rows = []"
    by (auto simp: kept_def filter_empty_conv)
  then show "parseRealTime (Page rows) k = None"
    by (simp add: parseRealTime_lookup)
qed

text \<open>
  A row with the power text \<open>"0 W"\<close>, a row with no digit in the power cell, and a page
  where the only row of \<open>INV1\<close> has power 0.
\<close>

theorem zero_power_row_discarded_witness:
  "onRow Map.empty [''INV1'', ''0 W'', '''', ''230 V'', ''35 C'', ''2024-01-01 10:00:00''] = Map.empty \<and>
   onRow Map.empty [''INV1'', ''offline'', '''', ''230 V'', ''35 C'', ''2024-01-01 10:00:00''] = Map.empty \<and>
   parseRealTime (Page [[''INV1'', ''0 W'', '''', ''230 V'', ''35 C'', ''2024-01-01 10:00:00''],
                        [''INV2'', ''7 W'', '''', ''231 V'', ''36 C'', ''2024-01-01 10:00:01'']]) ''INV1'' = None"
  using
    zero_power_row_discarded [of "[''INV1'', ''0 W'', '''', ''230 V'', ''35 C'', ''2024-01-01 10:00:00'']" Map.empty "[]" "[]"]
    zero_power_row_discarded [of "[''INV1'', ''offline'', '''', ''230 V'', ''35 C'', ''2024-01-01 10:00:00'']" Map.empty "[]" "[]"]
    zero_power_row_discarded [of "[]" Map.empty
       "[[''INV1'', ''0 W'', '''', ''230 V'', ''35 C'', ''2024-01-01 10:00:00''],
         [''INV2'', ''7 W'', '''', ''231 V'', ''36 C'', ''2024-01-01 10:00:01'']]" "''INV1''"]
  by (simp add: ChildText_def evalField)

text \<open>
  Claim C5.  A row whose first cell equals \<open>"Inverter ID"\<close> up to case is skipped: the
  callback returns the mapping unchanged.  So no key of the result equals
  \<open>"Inverter ID"\<close> up to case, whatever the page holds.
\<close>

theorem header_row_skipped:
  "(EqualFold (ChildText e 1) ''Inverter ID'' \<longrightarrow> onRow dataMap e = dataMap) \<and>
   (EqualFold k ''Inverter ID'' \<longrightarrow> parseRealTime r k = None)"
proof (intro conjI impI)
  assume "EqualFold (ChildText e 1) ''Inverter ID''"
  then show "onRow dataMap e = dataMap"
    by (simp add: onRow_def)
next
  assume k: "EqualFold k ''Inverter ID''"
  show "parseRealTime r k = None"
  proof (cases r)
    case FetchFailed
    then show ?thesis by (simp add: parseRealTime_def)
  next
    case (Page rows)
    from k have "filter (\<lambda>e. kept e \<and> ChildText e 1 = k) rows = []"
      by (auto simp: kept_def filter_empty_conv)
    with Page show ?thesis by (simp add: parseRealTime_lookup)
  qed
qed

text \<open>A header row in another case, with digits in its power cell.\<close>

theorem header_row_skipped_witness:
  "onRow Map.empty [''INVERTER id'', ''Power 7'', '''', ''Voltage'', ''Temp'', ''Date''] = Map.empty \<and>
   parseRealTime (Page [[''INVERTER id'', ''Power 7'', '''', ''Voltage'', ''Temp'', ''Date'']]) ''INVERTER id'' = None"
  using
    header_row_skipped [of "[''INVERTER id'', ''Power 7'', '''', ''Voltage'', ''Temp'', ''Date'']" Map.empty "[]" FetchFailed]
    header_row_skipped [of "[]" Map.empty "''INVERTER id''"
       "Page [[''INVERTER id'', ''Power 7'', '''', ''Voltage'', ''Temp'', ''Date'']]"]
  by (simp add: ChildText_def EqualFold_def asciiLower_def)

lemma page_fields:
  "numericField ''Power 7'' = 7" "numericField ''100 W'' = 100" "numericField ''150 W'' = 150"
  "numericField ''120 W'' = 120" "numericField ''offline'' = 0"
  "numericField ''230 V'' = 230" "numericField ''231 V'' = 231" "numericField ''229 V'' = 229"
  "numericField ''0 V'' = 0"
  "numericField ''35 C'' = 35" "numericField ''36 C'' = 36" "numericField ''34 C'' = 34"
  "numericField ''20 C'' = 20"
  by (simp_all add: evalField)

lemma page_fold:
  "EqualFold ''Inverter ID'' ''Inverter ID''" "\<not> EqualFold ''INV1'' ''Inverter ID''"
  "\<not> EqualFold ''INV3'' ''Inverter ID''"
  by (simp_all add: EqualFold_def asciiLower_def)

lemma kept_powered:
  assumes "\<not> EqualFold (ChildText e 1) ''Inverter ID'' \<longrightarrow> 0 \<le> sint (CurrentPower (rowLiveData e))"
  shows "kept e \<longleftrightarrow> powered e"
proof -
  have "numericField (ChildText e 2) \<noteq> 0 \<longleftrightarrow> sint (numericField (ChildText e 2)) \<noteq> 0"
    by (simp add: signed_eq_0_iff)
  with assms show ?thesis
    by (auto simp: kept_def powered_def rowLiveData_def)
qed

text \<open>
  Claim C6.  On every page the keys of the result are exactly the identifiers of the rows
  that reach the assignment, so each such identifier has one entry, and the entry is the
  reading of the last of these rows that carries the identifier.  The callback extracts no
  power from a header row and drops a row of power 0; so on a page where no power is below
  0 the rows that count are those with an extracted power above 0, whatever header rows and
  rows of power 0 stand between them.  (A row with a power below 0 is stored like one with
  a power above 0: the test of line 97 is \<open>== 0\<close>.)
\<close>

theorem last_row_wins:
  "dom (parseRealTime (Page rows)) = (\<lambda>e. ChildText e 1) ` set (filter kept rows) \<and>
   (\<forall>e\<in>set rows. kept e \<longrightarrow>
      parseRealTime (Page rows) (ChildText e 1) =
        Some (rowLiveData (last (filter (\<lambda>e'. kept e' \<and> ChildText e' 1 = ChildText e 1) rows)))) \<and>
   ((\<forall>e\<in>set rows. \<not> EqualFold (ChildText e 1) ''Inverter ID'' \<longrightarrow>
        0 \<le> sint (CurrentPower (rowLiveData e))) \<longrightarrow>
      dom (parseRealTime (Page rows)) = (\<lambda>e. ChildText e 1) ` set (filter powered rows) \<and>
      (\<forall>e\<in>set rows. powered e \<longrightarrow>
         parseRealTime (Page rows) (ChildText e 1) =
           Some (rowLiveData
             (last (filter (\<lambda>e'. powered e' \<and> ChildText e' 1 = ChildText e 1) rows)))))"
proof -
  have d: "dom (parseRealTime (Page rows)) = (\<lambda>e. ChildText e 1) ` set (filter kept rows)"
    by (auto simp: dom_def parseRealTime_lookup filter_empty_conv)
  have l: "\<forall>e\<in>set rows. kept e \<longrightarrow>
      parseRealTime (Page rows) (ChildText e 1) =
        Some (rowLiveData (last (filter (\<lambda>e'. kept e' \<and> ChildText e' 1 = ChildText e 1) rows)))"
    by (auto simp: parseRealTime_lookup filter_empty_conv)
  have p: "dom (parseRealTime (Page rows)) = (\<lambda>e. ChildText e 1) ` set (filter powered rows) \<and>
      (\<forall>e\<in>set rows. powered e \<longrightarrow>
         parseRealTime (Page rows) (ChildText e 1) =
           Some (rowLiveData
             (last (filter (\<lambda>e'. powered e' \<and> ChildText e' 1 = ChildText e 1) rows))))"
    if h: "\<forall>e\<in>set rows. \<not> EqualFold (ChildText e 1) ''Inverter ID'' \<longrightarrow>
        0 \<le> sint (CurrentPower (rowLiveData e))"
  proof -
    have k: "kept e \<longleftrightarrow> powered e" if "e \<in> set rows" for e
      using h that by (intro kept_powered) blast
    have f1: "filter kept rows = filter powered rows"
      by (rule filter_cong [OF refl]) (rule k)
    have f2: "filter (\<lambda>e'. kept e' \<and> ChildText e' 1 = i) rows =
        filter (\<lambda>e'. powered e' \<and> ChildText e' 1 = i) rows" for i
      by (rule filter_cong [OF refl]) (simp add: k)
    from d have "dom (parseRealTime (Page rows)) = (\<lambda>e. ChildText e 1) ` set (filter powered rows)"
      by (simp only: f1)
    moreover from l have "\<forall>e\<in>set rows. powered e \<longrightarrow>
         parseRealTime (Page rows) (ChildText e 1) =
           Some (rowLiveData
             (last (filter (\<lambda>e'. powered e' \<and> ChildText e' 1 = ChildText e 1) rows)))"
      using k by (simp only: f2) blast
    ultimately show ?thesis by (rule conjI)
  qed
  from d l p show ?thesis by blast
qed

text \<open>
  A page with a header row that has digits in its power cell, two rows of \<open>INV1\<close>, and a
  row of \<open>INV3\<close> with power 150 followed by one with no power.
\<close>

theorem last_row_wins_witness:
  "dom (parseRealTime (Page
      [[''Inverter ID'', ''Power 7'', '''', ''Voltage'', ''Temp'', ''Date''],
       [''INV1'', ''100 W'', '''', ''230 V'', ''35 C'', ''10:00''],
       [''INV3'', ''150 W'', '''', ''231 V'', ''36 C'', ''10:01''],
       [''INV1'', ''120 W'', '''', ''229 V'', ''34 C'', ''10:02''],
       [''INV3'', ''offline'', '''', ''0 V'', ''20 C'', ''10:03'']])) = {''INV1'', ''INV3''} \<and>
   parseRealTime (Page
      [[''Inverter ID'', ''Power 7'', '''', ''Voltage'', ''Temp'', ''Date''],
       [''INV1'', ''100 W'', '''', ''230 V'', ''35 C'', ''10:00''],
       [''INV3'', ''150 W'', '''', ''231 V'', ''36 C'', ''10:01''],
       [''INV1'', ''120 W'', '''', ''229 V'', ''34 C'', ''10:02''],
       [''INV3'', ''offline'', '''', ''0 V'', ''20 C'', ''10:03'']]) ''INV1'' =
     Some \<lparr>CurrentPower = 120, Voltage = 229, Temperature = 34, Date = ''10:02''\<rparr> \<and>
   parseRealTime (Page
      [[''Inverter ID'', ''Power 7'', '''', ''Voltage'', ''Temp'', ''Date''],
       [''INV1'', ''100 W'', '''', ''230 V'', ''35 C'', ''10:00''],
       [''INV3'', ''150 W'', '''', ''231 V'', ''36 C'', ''10:01''],
       [''INV1'', ''120 W'', '''', ''229 V'', ''34 C'', ''10:02''],
       [''INV3'', ''offline'', '''', ''0 V'', ''20 C'', ''10:03'']]) ''INV3'' =
     Some \<lparr>CurrentPower = 150, Voltage = 231, Temperature = 36, Date = ''10:01''\<rparr>"
proof -
  let ?rows = "[[''Inverter ID'', ''Power 7'', '''', ''Voltage'', ''Temp'', ''Date''],
       [''INV1'', ''100 W'', '''', ''230 V'', ''35 C'', ''10:00''],
       [''INV3'', ''150 W'', '''', ''231 V'', ''36 C'', ''10:01''],
       [''INV1'', ''120 W'', '''', ''229 V'', ''34 C'', ''10:02''],
       [''INV3'', ''offline'', '''', ''0 V'', ''20 C'', ''10:03'']]"
  have h: "\<forall>e\<in>set ?rows. \<not> EqualFold (ChildText e 1) ''Inverter ID'' \<longrightarrow>
        0 \<le> sint (CurrentPower (rowLiveData e))"
    by (simp add: ChildText_def rowLiveData_def page_fields page_fold)
  from last_row_wins [of ?rows, THEN conjunct2, THEN conjunct2, THEN mp, OF h]
  show ?thesis
    by (simp add: powered_def ChildText_def rowLiveData_def page_fields page_fold insert_commute)
qed

section \<open>Properties of a run\<close>

subsection \<open>What main computes\<close>

lemma makeSolarData_sample: "makeSolarData samplePayload = Some sampleSolar"
  by (simp add: makeSolarData_def samplePayload_def sampleSolar_def asObject_def asFloat_def
      asString_def)

lemma parseRealTime_sample:
  "parseRealTime (statusPage sampleRun) =
     [''INV1'' \<mapsto> \<lparr>CurrentPower = 100, Voltage = 230, Temperature = 35, Date = ''2024-01-01 10:00:00''\<rparr>,
      ''INV9'' \<mapsto> \<lparr>CurrentPower = 150, Voltage = 231, Temperature = 36, Date = ''2024-01-01 10:00:01''\<rparr>]"
  by (simp add: sampleRun_def parseRealTime_def onRow_def rowLiveData_def ChildText_def
      EqualFold_def asciiLower_def evalField)

lemma mergeLoop_eq:
  "mergeLoop m ps t =
     (map (\<lambda>p. p\<lparr>HistoricalData := HistoricalData p @ [index m (InverterID p)]\<rparr>) ps,
      t + sum_list (map (\<lambda>p. CurrentPower (index m (InverterID p))) ps))"
  by (induction ps arbitrary: t) (simp_all add: Let_def add.assoc)

lemma main_Inr:
  assumes "main e = Inr (panels', globals')"
  obtains data solarData panels globals where
    "getData (uvService e) = Inr data"
    "makeSolarData data = Some solarData"
    "loadPanelsFromJSON (panelFile e) = Inr panels"
    "loadGlobalFromJSON (globalFile e) = Inr globals"
    "panels' = map (\<lambda>p. p\<lparr>HistoricalData :=
                 HistoricalData p @ [index (parseRealTime (statusPage e)) (InverterID p)]\<rparr>) panels"
    "globals' = globals @
       [\<lparr>GDate = now e,
         Power = sum_list (map (\<lambda>p. CurrentPower (index (parseRealTime (statusPage e)) (InverterID p))) panels),
         Performance =
           fmul (fdiv (float64_of_int64
                   (sum_list (map (\<lambda>p. CurrentPower (index (parseRealTime (statusPage e)) (InverterID p))) panels)))
                 (float64_of_int64 (word_of_nat (length panels) * maxPower)))
             (Finite 100),
         Solar = solarData\<rparr>]"
  using assms
  by (auto simp: main_def mergeLoop_eq Let_def split: sum.splits option.splits)

lemma main_ok:
  assumes "getData (uvService e) = Inr data"
    "makeSolarData data = Some solarData"
    "loadPanelsFromJSON (panelFile e) = Inr panels"
    "loadGlobalFromJSON (globalFile e) = Inr globals"
  shows "main e = Inr
      (map (\<lambda>p. p\<lparr>HistoricalData :=
                 HistoricalData p @ [index (parseRealTime (statusPage e)) (InverterID p)]\<rparr>) panels,
       globals @
       [\<lparr>GDate = now e,
         Power = sum_list (map (\<lambda>p. CurrentPower (index (parseRealTime (statusPage e)) (InverterID p))) panels),
         Performance =
           fmul (fdiv (float64_of_int64
                   (sum_list (map (\<lambda>p. CurrentPower (index (parseRealTime (statusPage e)) (InverterID p))) panels)))
                 (float64_of_int64 (word_of_nat (length panels) * maxPower)))
             (Finite 100),
         Solar = solarData\<rparr>])"
  using assms by (simp add: main_def mergeLoop_eq Let_def)

lemma main_sample:
  "main sampleRun =
     Inr ([\<lparr>InverterID = ''INV1'',
            HistoricalData =
              [\<lparr>CurrentPower = 90, Voltage = 229, Temperature = 30, Date = ''2024-01-01 09:00:00''\<rparr>,
               \<lparr>CurrentPower = 100, Voltage = 230, Temperature = 35, Date = ''2024-01-01 10:00:00''\<rparr>]\<rparr>,
           \<lparr>InverterID = ''INV2'', HistoricalData = [zeroLiveData]\<rparr>],
          [\<lparr>GDate = ''2024-01-01 10:00:05'', Power = 100, Performance = Finite 20,
            Solar = sampleSolar\<rparr>])"
proof -
  have 1: "getData (uvService sampleRun) = Inr samplePayload"
    by (simp add: sampleRun_def getData_def)
  have 3: "loadPanelsFromJSON (panelFile sampleRun) = Inr
        [\<lparr>InverterID = ''INV1'',
          HistoricalData =
            [\<lparr>CurrentPower = 90, Voltage = 229, Temperature = 30, Date = ''2024-01-01 09:00:00''\<rparr>]\<rparr>,
         \<lparr>InverterID = ''INV2'', HistoricalData = []\<rparr>]"
    by (simp add: sampleRun_def loadPanelsFromJSON_def Unmarshal_def)
  have 4: "loadGlobalFromJSON (globalFile sampleRun) = Inr []"
    by (simp add: sampleRun_def loadGlobalFromJSON_def Unmarshal_def)
  have 5: "now sampleRun = ''2024-01-01 10:00:05''"
    by (simp add: sampleRun_def)
  show ?thesis
    unfolding main_ok [OF 1 makeSolarData_sample 3 4] parseRealTime_sample
    by (simp add: 5 index_def maxPower_def float64_of_int64_exact performance_sample
        zeroLiveData_def)
qed

lemma signed_take_bit_add_right:
  "signed_take_bit n (k + signed_take_bit n l) = signed_take_bit n (k + (l::int))"
proof -
  have "signed_take_bit n (signed_take_bit n k + signed_take_bit n (signed_take_bit n l))
      = signed_take_bit n (k + signed_take_bit n l)"
    by (rule signed_take_bit_add)
  moreover have "signed_take_bit n (signed_take_bit n k + signed_take_bit n l)
      = signed_take_bit n (k + l)"
    by (rule signed_take_bit_add)
  ultimately show ?thesis by simp
qed

lemma sint_sum_list:
  "sint (sum_list ws :: int64) = signed_take_bit 63 (sum_list (map sint ws))"
proof (induction ws)
  case Nil
  show ?case by simp
next
  case (Cons w ws)
  have "sint (w + sum_list ws) = signed_take_bit 63 (sint w + sint (sum_list ws))"
    by (simp add: sint_word_add)
  also have "\<dots> = signed_take_bit 63 (sint w + sum_list (map sint ws))"
    unfolding Cons.IH by (rule signed_take_bit_add_right)
  finally show ?case by simp
qed

lemma sint_word_of_nat:
  assumes "m < 2 ^ 63"
  shows "sint (word_of_nat m :: int64) = int m"
proof -
  have "(word_of_nat m :: int64) = word_of_int (int m)"
    by simp
  then have "sint (word_of_nat m :: int64) = signed_take_bit 63 (int m)"
    by (simp only: sint_sbintrunc') simp
  also have "\<dots> = int m"
  proof (rule signed_take_bit_int_eq_self)
    show "- (2 ^ 63) \<le> int m" by simp
    from assms have "int m < int (2 ^ 63)" by (simp only: of_nat_less_iff)
    then show "int m < 2 ^ 63" by simp
  qed
  finally show ?thesis .
qed

lemma sample_parts:
  "getData (uvService sampleRun) = Inr samplePayload"
  "loadPanelsFromJSON (panelFile sampleRun) = Inr
        [\<lparr>InverterID = ''INV1'',
          HistoricalData =
            [\<lparr>CurrentPower = 90, Voltage = 229, Temperature = 30, Date = ''2024-01-01 09:00:00''\<rparr>]\<rparr>,
         \<lparr>InverterID = ''INV2'', HistoricalData = []\<rparr>]"
  "loadGlobalFromJSON (globalFile sampleRun) = Inr []"
  "now sampleRun = ''2024-01-01 10:00:05''"
  by (simp_all add: sampleRun_def getData_def loadPanelsFromJSON_def loadGlobalFromJSON_def
      Unmarshal_def)

lemma last_appended:
  "map (\<lambda>p. CurrentPower (last (HistoricalData p)))
     (map (\<lambda>p. p\<lparr>HistoricalData := HistoricalData p @ [f p]\<rparr>) panels) =
   map (\<lambda>p. CurrentPower (f p)) panels"
  by simp

lemma index_case:
  "index m k = (case m k of Some reading \<Rightarrow> reading | None \<Rightarrow> zeroLiveData)"
  by (simp add: index_def)

text \<open>
  Claim C2.  Whenever the UV request and the two loads succeed the run reaches the two save
  calls, and the panel collection handed to \<open>savePanels\<close> is the loaded one, in order, each
  panel with its history followed by exactly one reading: the scraped one when the mapping
  holds the panel's identifier, the zero-valued one otherwise.  Nothing before the new entry
  changes, so each history grows by one.  The summaries handed to \<open>saveGlobal\<close> are the loaded
  ones followed by one new entry.  Conversely, a run that reaches the save calls has loaded
  collections of which this holds.
\<close>

theorem one_reading_per_panel:
  "(getData (uvService e) = Inr data \<and> makeSolarData data = Some solarData \<and>
    loadPanelsFromJSON (panelFile e) = Inr panels \<and>
    loadGlobalFromJSON (globalFile e) = Inr globals \<longrightarrow>
      (\<exists>g. main e =
         Inr (map (\<lambda>p. p\<lparr>HistoricalData := HistoricalData p @
                      [case parseRealTime (statusPage e) (InverterID p) of
                         Some reading \<Rightarrow> reading
                       | None \<Rightarrow> zeroLiveData]\<rparr>) panels,
              globals @ [g]))) \<and>
   (main e = Inr (panels', globals') \<longrightarrow>
      (\<exists>loaded summaries g.
         loadPanelsFromJSON (panelFile e) = Inr loaded \<and>
         loadGlobalFromJSON (globalFile e) = Inr summaries \<and>
         length panels' = length loaded \<and>
         (\<forall>i<length loaded.
            InverterID (panels' ! i) = InverterID (loaded ! i) \<and>
            HistoricalData (panels' ! i) =
              HistoricalData (loaded ! i) @
                [case parseRealTime (statusPage e) (InverterID (loaded ! i)) of
                   Some reading \<Rightarrow> reading
                 | None \<Rightarrow> zeroLiveData]) \<and>
         globals' = summaries @ [g]))"
proof (intro conjI impI)
  assume a: "getData (uvService e) = Inr data \<and> makeSolarData data = Some solarData \<and>
    loadPanelsFromJSON (panelFile e) = Inr panels \<and>
    loadGlobalFromJSON (globalFile e) = Inr globals"
  then have "main e = Inr
      (map (\<lambda>p. p\<lparr>HistoricalData :=
                 HistoricalData p @ [index (parseRealTime (statusPage e)) (InverterID p)]\<rparr>) panels,
       globals @
       [\<lparr>GDate = now e,
         Power = sum_list (map (\<lambda>p. CurrentPower (index (parseRealTime (statusPage e)) (InverterID p))) panels),
         Performance =
           fmul (fdiv (float64_of_int64
                   (sum_list (map (\<lambda>p. CurrentPower (index (parseRealTime (statusPage e)) (InverterID p))) panels)))
                 (float64_of_int64 (word_of_nat (length panels) * maxPower)))
             (Finite 100),
         Solar = solarData\<rparr>])"
    using main_ok [of e data solarData panels globals] by simp
  then show "\<exists>g. main e =
         Inr (map (\<lambda>p. p\<lparr>HistoricalData := HistoricalData p @
                      [case parseRealTime (statusPage e) (InverterID p) of
                         Some reading \<Rightarrow> reading
                       | None \<Rightarrow> zeroLiveData]\<rparr>) panels,
              globals @ [g])"
    by (simp only: index_case) blast
next
  assume "main e = Inr (panels', globals')"
  then show "\<exists>loaded summaries g.
         loadPanelsFromJSON (panelFile e) = Inr loaded \<and>
         loadGlobalFromJSON (globalFile e) = Inr summaries \<and>
         length panels' = length loaded \<and>
         (\<forall>i<length loaded.
            InverterID (panels' ! i) = InverterID (loaded ! i) \<and>
            HistoricalData (panels' ! i) =
              HistoricalData (loaded ! i) @
                [case parseRealTime (statusPage e) (InverterID (loaded ! i)) of
                   Some reading \<Rightarrow> reading
                 | None \<Rightarrow> zeroLiveData]) \<and>
         globals' = summaries @ [g]"
  proof (rule main_Inr)
    fix data solarData loaded summaries
    assume "loadPanelsFromJSON (panelFile e) = Inr loaded"
      and "loadGlobalFromJSON (globalFile e) = Inr summaries"
      and p: "panels' = map (\<lambda>p. p\<lparr>HistoricalData :=
                   HistoricalData p @ [index (parseRealTime (statusPage e)) (InverterID p)]\<rparr>) loaded"
      and "globals' = summaries @
         [\<lparr>GDate = now e,
           Power = sum_list (map (\<lambda>p. CurrentPower (index (parseRealTime (statusPage e)) (InverterID p))) loaded),
           Performance =
             fmul (fdiv (float64_of_int64
                     (sum_list (map (\<lambda>p. CurrentPower (index (parseRealTime (statusPage e)) (InverterID p))) loaded)))
                   (float64_of_int64 (word_of_nat (length loaded) * maxPower)))
               (Finite 100),
           Solar = solarData\<rparr>]"
    moreover from p have "length panels' = length loaded" by simp
    moreover from p have "\<forall>i<length loaded.
            InverterID (panels' ! i) = InverterID (loaded ! i) \<and>
            HistoricalData (panels' ! i) =
              HistoricalData (loaded ! i) @
                [case parseRealTime (statusPage e) (InverterID (loaded ! i)) of
                   Some reading \<Rightarrow> reading
                 | None \<Rightarrow> zeroLiveData]"
      by (simp add: index_def)
    ultimately show ?thesis by blast
  qed
qed

text \<open>The sample run: \<open>INV1\<close> gets its scraped reading, \<open>INV2\<close> the zero-valued one.\<close>

theorem one_reading_per_panel_witness:
  "\<exists>g. main sampleRun =
     Inr ([\<lparr>InverterID = ''INV1'',
            HistoricalData =
              [\<lparr>CurrentPower = 90, Voltage = 229, Temperature = 30, Date = ''2024-01-01 09:00:00''\<rparr>,
               \<lparr>CurrentPower = 100, Voltage = 230, Temperature = 35, Date = ''2024-01-01 10:00:00''\<rparr>]\<rparr>,
           \<lparr>InverterID = ''INV2'', HistoricalData = [zeroLiveData]\<rparr>],
          [g])"
proof -
  let ?ps = "[\<lparr>InverterID = ''INV1'',
          HistoricalData =
            [\<lparr>CurrentPower = 90, Voltage = 229, Temperature = 30, Date = ''2024-01-01 09:00:00''\<rparr>]\<rparr>,
         \<lparr>InverterID = ''INV2'', HistoricalData = []\<rparr>]"
  have h: "getData (uvService sampleRun) = Inr samplePayload \<and>
      makeSolarData samplePayload = Some sampleSolar \<and>
      loadPanelsFromJSON (panelFile sampleRun) = Inr ?ps \<and>
      loadGlobalFromJSON (globalFile sampleRun) = Inr []"
    by (simp add: sample_parts makeSolarData_sample)
  have s: "statusPage sampleRun = Page
        [[''Inverter ID'', ''Power'', '''', ''Voltage'', ''Temp'', ''Date''],
         [''INV1'', ''100 W'', '''', ''230 V'', ''35 C'', ''2024-01-01 10:00:00''],
         [''INV9'', ''150 W'', '''', ''231 V'', ''36 C'', ''2024-01-01 10:00:01'']]"
    by (simp add: sampleRun_def)
  from one_reading_per_panel [of sampleRun samplePayload sampleSolar ?ps "[]",
      THEN conjunct1, rule_format, OF h]
  show ?thesis
    unfolding parseRealTime_sample by simp
qed

text \<open>
  Claim C3.  Whenever the UV request and the two loads succeed, the power of the new summary
  is the \<open>int64\<close> sum of the power fields of the readings just appended, one per loaded
  panel (the integer sum whenever that fits 64 bits), and its performance is
  \<open>float64(total) / float64(count * 250) * 100\<close> with no clamping: it is a function of the
  total and the count alone.  With at least one panel (and fewer than \<open>2^63 / 250\<close>) that
  \<open>float64\<close> is finite and within the relative distance \<open>2^-50\<close> of the exact quotient
  \<open>T / (N * 250) * 100\<close>, the four roundings of the expression taken together; with no
  panel it is \<open>0 / 0\<close>, not a number.
\<close>

theorem total_and_performance:
  assumes "getData (uvService e) = Inr data"
    and "makeSolarData data = Some solarData"
    and "loadPanelsFromJSON (panelFile e) = Inr panels"
    and "loadGlobalFromJSON (globalFile e) = Inr globals"
  shows "\<exists>panels' g.
      main e = Inr (panels', globals @ [g]) \<and>
      length panels' = length panels \<and>
      Power g = sum_list (map (\<lambda>p. CurrentPower (last (HistoricalData p))) panels') \<and>
      Power g = sum_list (map (\<lambda>p. CurrentPower
                    (case parseRealTime (statusPage e) (InverterID p) of
                       Some reading \<Rightarrow> reading
                     | None \<Rightarrow> zeroLiveData)) panels) \<and>
      (- (2 ^ 63) \<le> sum_list (map (\<lambda>p. sint (CurrentPower (last (HistoricalData p)))) panels') \<and>
       sum_list (map (\<lambda>p. sint (CurrentPower (last (HistoricalData p)))) panels') < 2 ^ 63 \<longrightarrow>
         sint (Power g) =
           sum_list (map (\<lambda>p. sint (CurrentPower (last (HistoricalData p)))) panels')) \<and>
      Performance g =
        fmul (fdiv (float64_of_int64 (Power g))
                   (float64_of_int64 (word_of_nat (length panels) * maxPower)))
             (Finite 100) \<and>
      (0 < length panels \<and> length panels * 250 < 2 ^ 63 \<longrightarrow>
         (\<exists>x. Performance g = Finite x \<and>
              \<bar>x - of_int (sint (Power g)) / of_nat (length panels * 250) * 100\<bar>
                \<le> \<bar>of_int (sint (Power g)) / of_nat (length panels * 250) * 100\<bar> / 2 ^ 50)) \<and>
      (panels = [] \<longrightarrow> Performance g = NaN)"
proof -
  let ?m = "parseRealTime (statusPage e)"
  let ?T = "sum_list (map (\<lambda>p. CurrentPower (index ?m (InverterID p))) panels)"
  let ?P = "fmul (fdiv (float64_of_int64 ?T)
                 (float64_of_int64 (word_of_nat (length panels) * maxPower)))
             (Finite 100)"
  let ?ps = "map (\<lambda>p::Panel. p\<lparr>HistoricalData :=
                 HistoricalData p @ [index ?m (InverterID p)]\<rparr>) panels"
  let ?g = "\<lparr>GDate = now e, Power = ?T, Performance = ?P, Solar = solarData\<rparr>"
  have run: "main e = Inr (?ps, globals @ [?g])"
    using assms by (rule main_ok)
  have len: "length ?ps = length panels"
    by simp
  have s1: "map (\<lambda>p. CurrentPower (last (HistoricalData p))) ?ps =
        map (\<lambda>p. CurrentPower (index ?m (InverterID p))) panels"
    by (rule last_appended)
  have s2: "map (\<lambda>p. sint (CurrentPower (last (HistoricalData p)))) ?ps =
        map sint (map (\<lambda>p. CurrentPower (index ?m (InverterID p))) panels)"
    by simp
  have c1: "Power ?g = sum_list (map (\<lambda>p. CurrentPower (last (HistoricalData p))) ?ps)"
    by (simp only: s1) simp
  have c2: "Power ?g = sum_list (map (\<lambda>p. CurrentPower
                    (case ?m (InverterID p) of
                       Some reading \<Rightarrow> reading
                     | None \<Rightarrow> zeroLiveData)) panels)"
    by (simp add: index_def)
  have c3: "sint (Power ?g) =
           sum_list (map (\<lambda>p. sint (CurrentPower (last (HistoricalData p)))) ?ps)"
    if "- (2 ^ 63) \<le> sum_list (map (\<lambda>p. sint (CurrentPower (last (HistoricalData p)))) ?ps) \<and>
       sum_list (map (\<lambda>p. sint (CurrentPower (last (HistoricalData p)))) ?ps) < 2 ^ 63"
  proof -
    have "sint (Power ?g) = sint ?T" by simp
    also have "\<dots> =
        signed_take_bit 63 (sum_list (map (\<lambda>p. sint (CurrentPower (last (HistoricalData p)))) ?ps))"
      by (simp only: s2 sint_sum_list)
    also have "\<dots> = sum_list (map (\<lambda>p. sint (CurrentPower (last (HistoricalData p)))) ?ps)"
      using that by (intro signed_take_bit_int_eq_self) simp_all
    finally show ?thesis .
  qed
  have c4: "Performance ?g =
        fmul (fdiv (float64_of_int64 (Power ?g))
                   (float64_of_int64 (word_of_nat (length panels) * maxPower)))
             (Finite 100)"
    by simp
  have c5: "\<exists>x. Performance ?g = Finite x \<and>
              \<bar>x - of_int (sint (Power ?g)) / of_nat (length panels * 250) * 100\<bar>
                \<le> \<bar>of_int (sint (Power ?g)) / of_nat (length panels * 250) * 100\<bar> / 2 ^ 50"
    if n: "0 < length panels \<and> length panels * 250 < 2 ^ 63"
  proof -
    let ?D = "int (length panels * 250)"
    have w: "word_of_nat (length panels) * maxPower = (word_of_nat (length panels * 250) :: int64)"
      by (simp add: maxPower_def)
    have d: "sint (word_of_nat (length panels) * maxPower) = ?D"
      unfolding w using n by (simp only: sint_word_of_nat)
    have D0: "0 < ?D" using n by simp
    from n have "int (length panels * 250) < int (2 ^ 63)"
      by (simp only: of_nat_less_iff)
    then have D1: "?D < 2 ^ 63" by simp
    have T0: "- (2 ^ 63) \<le> sint ?T"
      using sint_ge [of ?T] by simp
    have T1: "sint ?T < 2 ^ 63"
      using sint_lt [of ?T] by simp
    from performance_close [OF D0 D1 T0 T1]
    obtain x where x: "fmul (fdiv (round64 (of_int (sint ?T))) (round64 (of_int ?D))) (Finite 100)
          = Finite x"
      and b: "\<bar>x - of_int (sint ?T) / of_int ?D * 100\<bar> \<le> \<bar>of_int (sint ?T) / of_int ?D * 100\<bar> / 2 ^ 50"
      by blast
    have "Performance ?g = Finite x"
      using x by (simp add: float64_of_int64_def d)
    moreover have "(of_int ?D :: rat) = of_nat (length panels * 250)"
      by simp
    ultimately show ?thesis
      using b by (intro exI [of _ x]) (simp only: select_convs, simp)
  qed
  have c6: "Performance ?g = NaN" if "panels = []"
    using that by (simp add: float64_of_int64_zero performance_no_panel)
  from run len c1 c2 c3 c4 c5 c6 show ?thesis by blast
qed

text \<open>
  The sample run: total 100 W over two panels, 20 per cent, here without rounding error.
\<close>

theorem total_and_performance_witness:
  "\<exists>panels' g.
     main sampleRun = Inr (panels', [g]) \<and>
     Power g = sum_list (map (\<lambda>p. CurrentPower (last (HistoricalData p))) panels') \<and>
     sint (Power g) = 100 \<and>
     Performance g = Finite 20 \<and>
     \<bar>20 - 100 / (2 * 250) * 100\<bar> \<le> \<bar>100 / (2 * 250) * 100 :: rat\<bar> / 2 ^ 50"
proof -
  from total_and_performance [OF sample_parts(1) makeSolarData_sample sample_parts(2) sample_parts(3)]
  show ?thesis
    unfolding main_sample by (simp add: zeroLiveData_def)
qed

text \<open>
  Claim C10.  The collection handed to \<open>savePanels\<close> has the identifiers of the loaded
  collection, in the same order.  And what the page says about identifiers that no loaded
  panel carries reaches neither save call: two pages whose mappings agree on the loaded
  panels' identifiers give the same run.
\<close>

theorem ignored_readings_dropped:
  "(main e = Inr (panels', globals') \<longrightarrow>
      (\<exists>panels. loadPanelsFromJSON (panelFile e) = Inr panels \<and>
                map InverterID panels' = map InverterID panels)) \<and>
   (loadPanelsFromJSON (panelFile e) = Inr panels \<and>
    (\<forall>p\<in>set panels. parseRealTime r (InverterID p) =
                      parseRealTime (statusPage e) (InverterID p)) \<longrightarrow>
      main (e\<lparr>statusPage := r\<rparr>) = main e)"
proof (intro conjI impI)
  assume "main e = Inr (panels', globals')"
  then show "\<exists>panels. loadPanelsFromJSON (panelFile e) = Inr panels \<and>
                map InverterID panels' = map InverterID panels"
  proof (rule main_Inr)
    fix data solarData panels globals
    assume "loadPanelsFromJSON (panelFile e) = Inr panels"
      and "panels' = map (\<lambda>p. p\<lparr>HistoricalData :=
                 HistoricalData p @ [index (parseRealTime (statusPage e)) (InverterID p)]\<rparr>) panels"
    then show ?thesis by (simp add: comp_def)
  qed
next
  assume a: "loadPanelsFromJSON (panelFile e) = Inr panels \<and>
    (\<forall>p\<in>set panels. parseRealTime r (InverterID p) =
                      parseRealTime (statusPage e) (InverterID p))"
  then have ix: "index (parseRealTime r) (InverterID p) =
                 index (parseRealTime (statusPage e)) (InverterID p)" if "p \<in> set panels" for p
    using that by (simp add: index_def)
  have "mergeLoop (parseRealTime r) panels 0 = mergeLoop (parseRealTime (statusPage e)) panels 0"
    unfolding mergeLoop_eq
    by (intro arg_cong2 [where f = Pair] arg_cong2 [where f = plus] arg_cong [where f = sum_list]
        map_cong refl) (simp_all add: ix)
  with a show "main (e\<lparr>statusPage := r\<rparr>) = main e"
    by (auto simp: main_def split: sum.splits option.splits)
qed

text \<open>The sample run with and without the row of \<open>INV9\<close>.\<close>

theorem ignored_readings_dropped_witness:
  "map InverterID (fst (projr (main sampleRun))) = [''INV1'', ''INV2''] \<and>
   main (sampleRun\<lparr>statusPage :=
           Page [[''INV1'', ''100 W'', '''', ''230 V'', ''35 C'', ''2024-01-01 10:00:00'']]\<rparr>)
     = main sampleRun"
proof -
  let ?r = "Page [[''INV1'', ''100 W'', '''', ''230 V'', ''35 C'', ''2024-01-01 10:00:00'']]"
  let ?ps = "[\<lparr>InverterID = ''INV1'',
          HistoricalData =
            [\<lparr>CurrentPower = 90, Voltage = 229, Temperature = 30, Date = ''2024-01-01 09:00:00''\<rparr>]\<rparr>,
         \<lparr>InverterID = ''INV2'', HistoricalData = []\<rparr>]"
  have l: "loadPanelsFromJSON (panelFile sampleRun) = Inr ?ps"
    by (simp add: sampleRun_def loadPanelsFromJSON_def Unmarshal_def)
  have r: "parseRealTime ?r =
     [''INV1'' \<mapsto> \<lparr>CurrentPower = 100, Voltage = 230, Temperature = 35, Date = ''2024-01-01 10:00:00''\<rparr>]"
    by (simp add: parseRealTime_def onRow_def rowLiveData_def ChildText_def
      EqualFold_def asciiLower_def evalField)
  have h: "\<forall>p\<in>set ?ps. parseRealTime ?r (InverterID p) =
                      parseRealTime (statusPage sampleRun) (InverterID p)"
    unfolding r parseRealTime_sample by simp
  from ignored_readings_dropped [of sampleRun _ _ ?ps ?r] l h
  have "main (sampleRun\<lparr>statusPage := ?r\<rparr>) = main sampleRun" by blast
  moreover from ignored_readings_dropped [of sampleRun, THEN conjunct1, rule_format, OF main_sample] l
  have "map InverterID (fst (projr (main sampleRun))) = [''INV1'', ''INV2'']"
    unfolding main_sample by simp
  ultimately show ?thesis by simp
qed

subsection \<open>Failures of the fetch and of the decoder\<close>

text \<open>
  Claim C8, as the code has it.  \<open>parseRealTime\<close> drops the error of \<open>c.Visit\<close>: on a failed
  fetch it returns the empty mapping, and the run is the run for a page with no data row.
  Unless the run aborts for another reason (the UV service, a file that cannot be opened),
  every loaded panel gets the zero-valued reading and the new summary has total power 0.
\<close>

theorem fetch_failure_continues:
  "parseRealTime FetchFailed = Map.empty \<and>
   main (e\<lparr>statusPage := FetchFailed\<rparr>) = main (e\<lparr>statusPage := Page []\<rparr>) \<and>
   (getData (uvService e) = Inr data \<and> makeSolarData data = Some solarData \<and>
    loadPanelsFromJSON (panelFile e) = Inr panels \<and>
    loadGlobalFromJSON (globalFile e) = Inr globals \<longrightarrow>
      main (e\<lparr>statusPage := FetchFailed\<rparr>) =
        Inr (map (\<lambda>p. p\<lparr>HistoricalData := HistoricalData p @ [zeroLiveData]\<rparr>) panels,
             globals @
               [\<lparr>GDate = now e, Power = 0,
                 Performance =
                   fmul (fdiv (Finite 0)
                              (float64_of_int64 (word_of_nat (length panels) * maxPower)))
                        (Finite 100),
                 Solar = solarData\<rparr>]))"
proof (intro conjI impI)
  show e: "parseRealTime FetchFailed = Map.empty"
    by (simp add: parseRealTime_def)
  show "main (e\<lparr>statusPage := FetchFailed\<rparr>) = main (e\<lparr>statusPage := Page []\<rparr>)"
    by (auto simp: main_def parseRealTime_def split: sum.splits option.splits)
  assume a: "getData (uvService e) = Inr data \<and> makeSolarData data = Some solarData \<and>
    loadPanelsFromJSON (panelFile e) = Inr panels \<and>
    loadGlobalFromJSON (globalFile e) = Inr globals"
  have z: "index Map.empty k = zeroLiveData" for k
    by (simp add: index_def)
  have "main (e\<lparr>statusPage := FetchFailed\<rparr>) = Inr
      (map (\<lambda>p. p\<lparr>HistoricalData :=
                 HistoricalData p @ [index (parseRealTime (statusPage (e\<lparr>statusPage := FetchFailed\<rparr>))) (InverterID p)]\<rparr>) panels,
       globals @
       [\<lparr>GDate = now (e\<lparr>statusPage := FetchFailed\<rparr>),
         Power = sum_list (map (\<lambda>p. CurrentPower (index (parseRealTime (statusPage (e\<lparr>statusPage := FetchFailed\<rparr>))) (InverterID p))) panels),
         Performance =
           fmul (fdiv (float64_of_int64
                   (sum_list (map (\<lambda>p. CurrentPower (index (parseRealTime (statusPage (e\<lparr>statusPage := FetchFailed\<rparr>))) (InverterID p))) panels)))
                 (float64_of_int64 (word_of_nat (length panels) * maxPower)))
             (Finite 100),
         Solar = solarData\<rparr>])"
    using a main_ok [of "e\<lparr>statusPage := FetchFailed\<rparr>" data solarData panels globals]
    by simp
  then show "main (e\<lparr>statusPage := FetchFailed\<rparr>) =
        Inr (map (\<lambda>p. p\<lparr>HistoricalData := HistoricalData p @ [zeroLiveData]\<rparr>) panels,
             globals @
               [\<lparr>GDate = now e, Power = 0,
                 Performance =
                   fmul (fdiv (Finite 0)
                              (float64_of_int64 (word_of_nat (length panels) * maxPower)))
                        (Finite 100),
                 Solar = solarData\<rparr>])"
    by (simp add: e z zeroLiveData_def float64_of_int64_zero)
qed

text \<open>The sample run with a failed fetch of the status page.\<close>

theorem fetch_failure_continues_witness:
  "main (sampleRun\<lparr>statusPage := FetchFailed\<rparr>) = main (sampleRun\<lparr>statusPage := Page []\<rparr>) \<and>
   main (sampleRun\<lparr>statusPage := FetchFailed\<rparr>) =
     Inr ([\<lparr>InverterID = ''INV1'',
            HistoricalData =
              [\<lparr>CurrentPower = 90, Voltage = 229, Temperature = 30, Date = ''2024-01-01 09:00:00''\<rparr>,
               zeroLiveData]\<rparr>,
           \<lparr>InverterID = ''INV2'', HistoricalData = [zeroLiveData]\<rparr>],
          [\<lparr>GDate = ''2024-01-01 10:00:05'', Power = 0, Performance = Finite 0,
            Solar = sampleSolar\<rparr>])"
proof -
  let ?ps = "[\<lparr>InverterID = ''INV1'',
          HistoricalData =
            [\<lparr>CurrentPower = 90, Voltage = 229, Temperature = 30, Date = ''2024-01-01 09:00:00''\<rparr>]\<rparr>,
         \<lparr>InverterID = ''INV2'', HistoricalData = []\<rparr>]"
  note t = fetch_failure_continues [of sampleRun samplePayload sampleSolar ?ps "[]"]
  have h: "getData (uvService sampleRun) = Inr samplePayload \<and>
      makeSolarData samplePayload = Some sampleSolar \<and>
      loadPanelsFromJSON (panelFile sampleRun) = Inr ?ps \<and>
      loadGlobalFromJSON (globalFile sampleRun) = Inr []"
    by (simp add: sample_parts makeSolarData_sample)
  from t have "main (sampleRun\<lparr>statusPage := FetchFailed\<rparr>) =
      main (sampleRun\<lparr>statusPage := Page []\<rparr>)"
    by blast
  moreover from t [THEN conjunct2, THEN conjunct2, rule_format, OF h]
  have "main (sampleRun\<lparr>statusPage := FetchFailed\<rparr>) =
     Inr ([\<lparr>InverterID = ''INV1'',
            HistoricalData =
              [\<lparr>CurrentPower = 90, Voltage = 229, Temperature = 30, Date = ''2024-01-01 09:00:00''\<rparr>,
               zeroLiveData]\<rparr>,
           \<lparr>InverterID = ''INV2'', HistoricalData = [zeroLiveData]\<rparr>],
          [\<lparr>GDate = ''2024-01-01 10:00:05'', Power = 0, Performance = Finite 0,
            Solar = sampleSolar\<rparr>])"
    by (simp add: sample_parts maxPower_def float64_of_int64_exact performance_zero)
  ultimately show ?thesis by (rule conjI)
qed

text \<open>
  Claim C8 as stated fails: with the fetch failed and everything else in order the run is
  not aborted; it reaches the save calls with an all-zero reading for the panel.
\<close>

theorem fetch_failure_counterexample:
  "parseRealTime FetchFailed = Map.empty \<and>
   main \<lparr>statusPage = FetchFailed,
         uvService = Object samplePayload,
         panelFile = File (WellFormed [\<lparr>InverterID = ''INV1'', HistoricalData = []\<rparr>]),
         globalFile = File (WellFormed []),
         now = ''2024-01-01 10:00:05''\<rparr> =
     Inr ([\<lparr>InverterID = ''INV1'', HistoricalData = [zeroLiveData]\<rparr>],
          [\<lparr>GDate = ''2024-01-01 10:00:05'', Power = 0, Performance = Finite 0,
            Solar = sampleSolar\<rparr>])"
  by (simp add: main_def parseRealTime_def getData_def makeSolarData_sample
      loadPanelsFromJSON_def loadGlobalFromJSON_def Unmarshal_def index_def zeroLiveData_def
      maxPower_def float64_of_int64_zero float64_of_int64_exact performance_zero)

text \<open>
  Claim C9, as the code has it.  A load aborts exactly when the file cannot be opened, with
  the message of its \<open>log.Fatal\<close>.  The value \<open>json.Unmarshal\<close> returns is dropped: for a
  file that is no JSON the load returns the empty collection, for JSON of another shape
  what the decoder stored.
\<close>

theorem load_fatal_only_on_open:
  "(loadPanelsFromJSON pf = Inl a \<longleftrightarrow> pf = Missing \<and> a = Fatal ''opening panels file'') \<and>
   (loadGlobalFromJSON gf = Inl b \<longleftrightarrow> gf = Missing \<and> b = Fatal ''opening global file'') \<and>
   loadPanelsFromJSON (File Malformed) = Inr [] \<and>
   loadPanelsFromJSON (File (WrongShape ps)) = Inr ps \<and>
   loadGlobalFromJSON (File Malformed) = Inr [] \<and>
   loadGlobalFromJSON (File (WrongShape gs)) = Inr gs"
  by (auto simp: loadPanelsFromJSON_def loadGlobalFromJSON_def Unmarshal_def
      split: jsonFile.splits content.splits)

text \<open>The two missing files, and a panel file whose only panel decoded to zero values.\<close>

theorem load_fatal_only_on_open_witness:
  "loadPanelsFromJSON Missing = Inl (Fatal ''opening panels file'') \<and>
   loadGlobalFromJSON Missing = Inl (Fatal ''opening global file'') \<and>
   loadPanelsFromJSON (File (WrongShape [\<lparr>InverterID = [], HistoricalData = []\<rparr>])) =
     Inr [\<lparr>InverterID = [], HistoricalData = []\<rparr>]"
  using load_fatal_only_on_open [of Missing "Fatal ''opening panels file''" Missing
      "Fatal ''opening global file''" "[\<lparr>InverterID = [], HistoricalData = []\<rparr>]" "[]"]
  by simp

text \<open>
  Claim C9 as stated fails: with both files malformed the loads return empty collections
  and the run goes on to the save calls (with the performance \<open>0 / 0\<close>).
\<close>

theorem malformed_file_counterexample:
  "loadPanelsFromJSON (File Malformed) = Inr [] \<and>
   loadGlobalFromJSON (File Malformed) = Inr [] \<and>
   main (sampleRun\<lparr>panelFile := File Malformed, globalFile := File Malformed\<rparr>) =
     Inr ([], [\<lparr>GDate = ''2024-01-01 10:00:05'', Power = 0, Performance = NaN,
                Solar = sampleSolar\<rparr>])"
  by (simp add: main_def sampleRun_def getData_def makeSolarData_sample
      loadPanelsFromJSON_def loadGlobalFromJSON_def Unmarshal_def
      maxPower_def float64_of_int64_zero performance_no_panel)

end
